theory Spec2Isabelle
  imports Complex_Main "HOL-Library.Sublist"
begin

section \<open>Python values, exceptions and SDK responses\<close>

text \<open>
  The notebooks are glue code around three SDKs (Azure OpenAI, pymongo, azure-cosmos).
  Exceptions are values of \<open>py_error\<close>; a computation that may raise returns
  \<open>py_error + 'a\<close> with \<open>Inl\<close> for the exception.
\<close>

datatype py_error =
    KeyError string
  | IndexError
  | TypeError
  | EOFError
  | OpenAIError string
  | PyMongoError string
  | CosmosHttpResponseError string
  | RetryError py_error

text \<open>
  Documents, pipelines and chat messages are Python dicts and lists. A dict is an
  association list in insertion order with distinct keys. Floats are only carried
  around by the notebooks, never computed with.
\<close>

type_synonym pyfloat = rat

datatype pyval =
    PyNone
  | PyBool bool
  | PyInt int
  | PyFloat pyfloat
  | PyStr string
  | ObjectId nat
  | PyList "pyval list"
  | PyDict "(string \<times> pyval) list"

type_synonym pydict = "(string \<times> pyval) list"

definition bind_err :: "py_error + 'a \<Rightarrow> ('a \<Rightarrow> py_error + 'b) \<Rightarrow> py_error + 'b" where
  "bind_err r f = (case r of Inl e \<Rightarrow> Inl e | Inr v \<Rightarrow> f v)"

text \<open>\<^verbatim>\<open>d[k]\<close> with a string key: KeyError on a dict without the key, TypeError on
  every value that is not a dict.\<close>

fun getitem :: "pyval \<Rightarrow> string \<Rightarrow> py_error + pyval" where
  "getitem (PyDict kvs) k = (case map_of kvs k of None \<Rightarrow> Inl (KeyError k) | Some v \<Rightarrow> Inr v)"
| "getitem _ k = Inl TypeError"

text \<open>\<^verbatim>\<open>d[k] = v\<close>: an existing key keeps its position, a new key goes last.\<close>

fun dict_set :: "pydict \<Rightarrow> string \<Rightarrow> pyval \<Rightarrow> pydict" where
  "dict_set [] k v = [(k, v)]"
| "dict_set ((k', v') # kvs) k v = (if k' = k then (k, v) # kvs else (k', v') # dict_set kvs k v)"

fun setitem :: "pyval \<Rightarrow> string \<Rightarrow> pyval \<Rightarrow> py_error + pyval" where
  "setitem (PyDict kvs) k v = Inr (PyDict (dict_set kvs k v))"
| "setitem _ k v = Inl TypeError"

text \<open>\<^verbatim>\<open>a + b\<close> where one operand is known to be a \<open>str\<close>: the other one has to be
  a \<open>str\<close> too, anything else is a TypeError.\<close>

fun str_add :: "pyval \<Rightarrow> pyval \<Rightarrow> py_error + pyval" where
  "str_add (PyStr a) (PyStr b) = Inr (PyStr (a @ b))"
| "str_add _ _ = Inl TypeError"

text \<open>\<^verbatim>\<open>str(n)\<close> of an int.\<close>

function str_nat :: "nat \<Rightarrow> string" where
  "str_nat n =
     (if n < 10 then [''0123456789'' ! n]
      else str_nat (n div 10) @ [''0123456789'' ! (n mod 10)])"
  by pat_completeness auto
termination
  by (relation "measure id") auto

declare str_nat.simps [simp del]

definition py_str :: "int \<Rightarrow> string" where
  "py_str i = (if i < 0 then CHR ''-'' # str_nat (nat (- i)) else str_nat (nat i))"

text \<open>\<^verbatim>\<open>s.lower()\<close>. Only the ASCII capitals matter for a comparison with \<^verbatim>\<open>"end"\<close>.\<close>

definition lower_char :: "char \<Rightarrow> char" where
  "lower_char c =
     (case map_of (zip ''ABCDEFGHIJKLMNOPQRSTUVWXYZ'' ''abcdefghijklmnopqrstuvwxyz'') c of
        Some l \<Rightarrow> l
      | None \<Rightarrow> c)"

definition lower :: "string \<Rightarrow> string" where
  "lower s = map lower_char s"

text \<open>
  The responses of the OpenAI SDK are pydantic models; \<^verbatim>\<open>model_dump()\<close> turns them into
  dicts whose shape is fixed by the model classes. Only the fields the notebooks read
  are kept.
\<close>

record embedding_item =
  embedding :: "pyfloat list"

record embedding_response =
  data :: "embedding_item list"

record chat_message =
  content :: "string option"

record chat_choice =
  message :: chat_message

record completion_usage =
  completion_tokens :: int
  prompt_tokens :: int
  total_tokens :: int

record chat_completion =
  choices :: "chat_choice list"
  usage :: "completion_usage option"
  model :: string

text \<open>The \<^verbatim>\<open>input\<close> of an embeddings request is one text or a list of texts.\<close>

datatype embed_input = Text string | Texts "string list"

section \<open>The world outside the notebooks\<close>

text \<open>
  A stored MongoDB document is its driver-generated \<^verbatim>\<open>_id\<close> and its other fields. A
  collection is the list of its documents in insertion order. The documents the
  notebooks hand to \<^verbatim>\<open>insert_one\<close> carry no \<^verbatim>\<open>_id\<close> of their own.
\<close>

record stored =
  oid :: nat
  body :: pydict

text \<open>
  Every call that leaves the notebook is logged, in order; a \<open>RetryWait\<close> is a sleep of
  that many seconds between two attempts. The world is the two collections of the
  MongoDB database, whether that database has been created with its collections, the
  NoSQL container and the log.
\<close>

datatype event =
    EmbeddingsCreate embed_input
  | RetryWait rat
  | Aggregate "pyval list"
  | CacheFind nat
  | ChatCreate "pyval list"
  | Print string
  | CacheInsert pydict
  | ItemInsert pydict
  | DropDatabase
  | CreateIndexes string
  | ClientEnter
  | Upsert pyval

record world =
  cache :: "stored list"
  items :: "stored list"
  database_created :: bool
  container :: "string \<rightharpoonup> pydict"
  trace :: "event list"

text \<open>
  The services answer as they please: each answer may depend on the request and on the
  moment of the call (the number of calls logged so far), and may be an exception.
  \<open>random_random\<close> is what \<^verbatim>\<open>random.random()\<close> draws at that moment.
\<close>

record services =
  embeddings_create :: "nat \<Rightarrow> embed_input \<Rightarrow> py_error + embedding_response"
  aggregate :: "nat \<Rightarrow> stored list \<Rightarrow> pyval list \<Rightarrow> py_error + pyval list"
  chat_completions_create :: "nat \<Rightarrow> pyval list \<Rightarrow> py_error + chat_completion"
  db_fault :: "nat \<Rightarrow> py_error option"
  random_random :: "nat \<Rightarrow> rat"

type_synonym 'a prog = "world \<Rightarrow> (py_error + 'a) \<times> world"

definition emit :: "event \<Rightarrow> world \<Rightarrow> world" where
  "emit e w = w\<lparr>trace := trace w @ [e]\<rparr>"

section \<open>generate\_embeddings\<close>

text \<open>The Q and A notebook (\<^verbatim>\<open>cosmos-demos-langchain.ipynb\<close>): no retry, the decorator is
  commented out.\<close>

definition generate_embeddings :: "services \<Rightarrow> embed_input \<Rightarrow> pyfloat list prog" where
  "generate_embeddings sv text w =
     (let w1 = emit (EmbeddingsCreate text) w in
      case embeddings_create sv (length (trace w)) text of
        Inl e \<Rightarrow> (Inl e, w1)
      | Inr response \<Rightarrow>
          (case data response of
             [] \<Rightarrow> (Inl IndexError, w1)
           | d # _ \<Rightarrow> (Inr (embedding d), w1)))"

text \<open>The vCore ingestion notebook: the same body.\<close>

definition generate_embeddings_vcore :: "services \<Rightarrow> embed_input \<Rightarrow> pyfloat list prog" where
  "generate_embeddings_vcore sv text w =
     (let w1 = emit (EmbeddingsCreate text) w in
      case embeddings_create sv (length (trace w)) text of
        Inl e \<Rightarrow> (Inl e, w1)
      | Inr response \<Rightarrow>
          (case data response of
             [] \<Rightarrow> (Inl IndexError, w1)
           | d # _ \<Rightarrow> (Inr (embedding d), w1)))"

text \<open>
  The NoSQL notebook wraps the same body in
  \<^verbatim>\<open>@retry(wait=wait_random_exponential(min=1, max=10), stop=stop_after_attempt(20))\<close>.
  The decorator calls the function again after every exception, whatever its class,
  until an attempt returns or the attempt number reaches the stop; then it raises
  \<open>RetryError\<close> around the last exception (\<^verbatim>\<open>reraise\<close> is not set). Before the next attempt
  it sleeps \<^verbatim>\<open>random.uniform(min, high)\<close> seconds, where \<open>high\<close> is \<open>2 ^ (attempt_number - 1)\<close>
  kept between \<open>min\<close> and \<open>max\<close> (multiplier 1, base 2), and \<^verbatim>\<open>random.uniform(a, b)\<close> is
  \<open>a + (b - a) * random()\<close>.
\<close>

definition wait_exponential :: "rat \<Rightarrow> rat \<Rightarrow> nat \<Rightarrow> rat" where
  "wait_exponential min_wait max_wait attempt_number =
     max (max 0 min_wait) (min (2 ^ (attempt_number - 1)) max_wait)"

definition wait_random_exponential :: "services \<Rightarrow> rat \<Rightarrow> rat \<Rightarrow> nat \<Rightarrow> nat \<Rightarrow> rat" where
  "wait_random_exponential sv min_wait max_wait t attempt_number =
     (let high = wait_exponential min_wait max_wait attempt_number
      in min_wait + (high - min_wait) * random_random sv t)"

fun retry_loop :: "(nat \<Rightarrow> nat \<Rightarrow> rat) \<Rightarrow> nat \<Rightarrow> nat \<Rightarrow> 'a prog \<Rightarrow> 'a prog" where
  "retry_loop wait attempt_number 0 fn w =
     (case fn w of
        (Inl e, w1) \<Rightarrow> (Inl (RetryError e), w1)
      | (Inr v, w1) \<Rightarrow> (Inr v, w1))"
| "retry_loop wait attempt_number (Suc remaining) fn w =
     (case fn w of
        (Inl e, w1) \<Rightarrow>
          retry_loop wait (Suc attempt_number) remaining fn
            (emit (RetryWait (wait (length (trace w1)) attempt_number)) w1)
      | (Inr v, w1) \<Rightarrow> (Inr v, w1))"

definition retry :: "(nat \<Rightarrow> nat \<Rightarrow> rat) \<Rightarrow> nat \<Rightarrow> 'a prog \<Rightarrow> 'a prog" where
  "retry wait stop_after_attempt fn = retry_loop wait 1 (stop_after_attempt - 1) fn"

definition generate_embeddings_body :: "services \<Rightarrow> embed_input \<Rightarrow> pyfloat list prog" where
  "generate_embeddings_body sv text w =
     (let w1 = emit (EmbeddingsCreate text) w in
      case embeddings_create sv (length (trace w)) text of
        Inl e \<Rightarrow> (Inl e, w1)
      | Inr response \<Rightarrow>
          (case data response of
             [] \<Rightarrow> (Inl IndexError, w1)
           | d # _ \<Rightarrow> (Inr (embedding d), w1)))"

definition generate_embeddings_nosql :: "services \<Rightarrow> embed_input \<Rightarrow> pyfloat list prog" where
  "generate_embeddings_nosql sv text =
     retry (wait_random_exponential sv 1 10) 20 (generate_embeddings_body sv text)"

section \<open>The question-and-answer notebook\<close>

text \<open>\<^verbatim>\<open>vector_search(query_embedding, num_results=3)\<close>: the pipeline is a literal with two
  holes; \<^verbatim>\<open>collection.aggregate\<close> sends it at once and its cursor is returned as it is.\<close>

definition pipeline :: "pyfloat list \<Rightarrow> int \<Rightarrow> pyval list" where
  "pipeline query_embedding num_results =
     [PyDict [(''$search'',
         PyDict [(''cosmosSearch'',
                    PyDict [(''vector'', PyList (map PyFloat query_embedding)),
                            (''path'', PyStr ''contentVector''),
                            (''k'', PyInt num_results)]),
                 (''returnStoredSource'', PyBool True)])],
      PyDict [(''$project'',
         PyDict [(''similarityScore'', PyDict [(''$meta'', PyStr ''searchScore'')]),
                 (''document'', PyStr ''$$ROOT'')])]]"

definition vector_search :: "services \<Rightarrow> pyfloat list \<Rightarrow> int \<Rightarrow> pyval list prog" where
  "vector_search sv query_embedding num_results w =
     (let results = aggregate sv (length (trace w)) (items w) (pipeline query_embedding num_results)
      in (results, emit (Aggregate (pipeline query_embedding num_results)) w))"

definition vector_search_default :: "services \<Rightarrow> pyfloat list \<Rightarrow> pyval list prog" where
  "vector_search_default sv query_embedding = vector_search sv query_embedding 3"

text \<open>
  \<^verbatim>\<open>cache.find({}, {"prompt": 1, "completion": 1}).sort([("_id", -1)]).limit(completions)\<close>:
  every document, projected on \<^verbatim>\<open>_id\<close>, \<^verbatim>\<open>prompt\<close> and \<^verbatim>\<open>completion\<close>, in descending
  \<^verbatim>\<open>_id\<close> order; a limit of 0 is no limit.
\<close>

definition project :: "string list \<Rightarrow> stored \<Rightarrow> pyval" where
  "project keys d =
     PyDict ((''_id'', ObjectId (oid d)) # filter (\<lambda>(k, v). k \<in> set keys) (body d))"

definition sort_id_desc :: "stored list \<Rightarrow> stored list" where
  "sort_id_desc coll = rev (sort_key oid coll)"

definition get_conversation_history :: "services \<Rightarrow> nat \<Rightarrow> pyval list prog" where
  "get_conversation_history sv completions w =
     (let w1 = emit (CacheFind completions) w in
      case db_fault sv (length (trace w)) of
        Some e \<Rightarrow> (Inl e, w1)
      | None \<Rightarrow>
          (let sorted = sort_id_desc (cache w);
               limited = (if completions = 0 then sorted else take completions sorted)
           in (Inr (map (project [''prompt'', ''completion'']) limited), w1)))"

definition system_prompt :: string where
  "system_prompt =
     [CHR 0x0A] @
     ''    You are an intelligent assistant for Microsoft Azure services.'' @ [CHR 0x0A] @
     ''    You are designed to provide helpful answers to user questions about Azure services given the information about to be provided.'' @ [CHR 0x0A] @
     ''        - Only answer questions related to the information provided below, provide 3 clear suggestions in a list format.'' @ [CHR 0x0A] @
     ''        - Write two lines of whitespace between each answer in the list.'' @ [CHR 0x0A] @
     ''        - Only provide answers that have products that are part of Microsoft Azure and based on the content items.'' @ [CHR 0x0A] @
     ''        - If you're unsure of an answer, you can say '' @ [CHR 0x22, CHR 0x22] @
     ''I don't know'' @ [CHR 0x22, CHR 0x22] @ '' or '' @ [CHR 0x22, CHR 0x22] @
     ''I'm not sure'' @ [CHR 0x22, CHR 0x22] @
     '' and recommend users search themselves.'' @ [CHR 0x22, CHR 0x0A] @
     ''    ''"

text \<open>The body of the first loop:
  \<^verbatim>\<open>messages.append({"role": "system", "content": item['prompt'] + " " + item['completion']})\<close>.\<close>

definition history_message :: "pyval \<Rightarrow> py_error + pyval" where
  "history_message item =
     bind_err (getitem item ''prompt'') (\<lambda>p.
     bind_err (str_add p (PyStr '' '')) (\<lambda>ps.
     bind_err (getitem item ''completion'') (\<lambda>c.
     bind_err (str_add ps c) (\<lambda>s.
     Inr (PyDict [(''role'', PyStr ''system''), (''content'', s)])))))"

fun append_history :: "pyval list \<Rightarrow> pyval list \<Rightarrow> py_error + pyval list" where
  "append_history messages [] = Inr messages"
| "append_history messages (item # rest) =
     bind_err (history_message item) (\<lambda>m. append_history (messages @ [m]) rest)"

text \<open>The body of the second loop:
  \<^verbatim>\<open>messages.append({"role": "system", "content": item['document']['content']})\<close>.\<close>

definition result_message :: "pyval \<Rightarrow> py_error + pyval" where
  "result_message item =
     bind_err (getitem item ''document'') (\<lambda>d.
     bind_err (getitem d ''content'') (\<lambda>c.
     Inr (PyDict [(''role'', PyStr ''system''), (''content'', c)])))"

fun append_results :: "pyval list \<Rightarrow> pyval list \<Rightarrow> py_error + pyval list" where
  "append_results messages [] = Inr messages"
| "append_results messages (item # rest) =
     bind_err (result_message item) (\<lambda>m. append_results (messages @ [m]) rest)"

definition generate_completion :: "services \<Rightarrow> pyval list \<Rightarrow> string \<Rightarrow> chat_completion prog" where
  "generate_completion sv vector_search_results user_prompt w =
     (let messages = [PyDict [(''role'', PyStr ''system''), (''content'', PyStr system_prompt)]] in
      case get_conversation_history sv 3 w of
        (Inl e, w1) \<Rightarrow> (Inl e, w1)
      | (Inr conversation_history, w1) \<Rightarrow>
          (case append_history messages conversation_history of
             Inl e \<Rightarrow> (Inl e, w1)
           | Inr messages \<Rightarrow>
               (let messages =
                      messages @ [PyDict [(''role'', PyStr ''user''), (''content'', PyStr user_prompt)]]
                in case append_results messages vector_search_results of
                     Inl e \<Rightarrow> (Inl e, w1)
                   | Inr messages \<Rightarrow>
                       (chat_completions_create sv (length (trace w1)) messages,
                        emit (ChatCreate messages) w1))))"

text \<open>\<^verbatim>\<open>cache.insert_one(doc)\<close>: the driver adds a new ObjectId, larger than those it
  generated before, and the document goes to the end of the collection.\<close>

definition fresh_oid :: "stored list \<Rightarrow> nat" where
  "fresh_oid coll = Suc (fold max (map oid coll) 0)"

definition cache_insert_one :: "services \<Rightarrow> pydict \<Rightarrow> unit prog" where
  "cache_insert_one sv doc w =
     (let w1 = emit (CacheInsert doc) w in
      case db_fault sv (length (trace w)) of
        Some e \<Rightarrow> (Inl e, w1)
      | None \<Rightarrow> (Inr (), w1\<lparr>cache := cache w @ [\<lparr>oid = fresh_oid (cache w), body = doc\<rparr>]\<rparr>))"

definition opt_str :: "string option \<Rightarrow> pyval" where
  "opt_str s = (case s of None \<Rightarrow> PyNone | Some t \<Rightarrow> PyStr t)"

definition cache_generation ::
    "services \<Rightarrow> string \<Rightarrow> pyfloat list \<Rightarrow> chat_completion \<Rightarrow> unit prog" where
  "cache_generation sv user_prompt user_embeddings response w =
     (case choices response of
        [] \<Rightarrow> (Inl IndexError, w)
      | c # _ \<Rightarrow>
          (case usage response of
             None \<Rightarrow> (Inl TypeError, w)
           | Some u \<Rightarrow>
               (let chat =
                      [[(''prompt'', PyStr user_prompt),
                        (''completion'', opt_str (content (message c))),
                        (''completionTokens'', PyStr (py_str (completion_tokens u))),
                        (''promptTokens'', PyStr (py_str (prompt_tokens u))),
                        (''totalTokens'', PyStr (py_str (total_tokens u))),
                        (''model'', PyStr (model response)),
                        (''vectorContent'', PyList (map PyFloat user_embeddings))]]
                in cache_insert_one sv (hd chat) w)))"

text \<open>The body of the interactive loop. \<^verbatim>\<open>print(None)\<close> writes \<^verbatim>\<open>None\<close>.\<close>

definition print_text :: "string option \<Rightarrow> string" where
  "print_text s = (case s of None \<Rightarrow> ''None'' | Some t \<Rightarrow> t)"

definition qa_body :: "services \<Rightarrow> string \<Rightarrow> unit prog" where
  "qa_body sv user_input w =
     (case generate_embeddings sv (Text user_input) w of
        (Inl e, w1) \<Rightarrow> (Inl e, w1)
      | (Inr user_embeddings, w1) \<Rightarrow>
          (case vector_search_default sv user_embeddings w1 of
             (Inl e, w2) \<Rightarrow> (Inl e, w2)
           | (Inr search_results, w2) \<Rightarrow>
               (case generate_completion sv search_results user_input w2 of
                  (Inl e, w3) \<Rightarrow> (Inl e, w3)
                | (Inr completions_results, w3) \<Rightarrow>
                    (let w4 = emit (Print (CHR 0x0A # user_input)) w3 in
                     case choices completions_results of
                       [] \<Rightarrow> (Inl IndexError, w4)
                     | c # _ \<Rightarrow>
                         (let w5 = emit (Print (print_text (content (message c)))) w4
                          in cache_generation sv user_input user_embeddings completions_results w5)))))"

text \<open>
  The loop reads its inputs one by one; \<^verbatim>\<open>input\<close> raises EOFError when there is nothing
  left to read.
  \<^verbatim>\<open>while user_input.lower() != "end": ...; user_input = input("Prompt: ")\<close>
\<close>

fun qa_loop :: "services \<Rightarrow> string list \<Rightarrow> unit prog" where
  "qa_loop sv [] w = (Inl EOFError, w)"
| "qa_loop sv (user_input # rest) w =
     (if lower user_input \<noteq> ''end'' then
        (case qa_body sv user_input w of
           (Inl e, w1) \<Rightarrow> (Inl e, w1)
         | (Inr u, w1) \<Rightarrow> qa_loop sv rest w1)
      else (Inr (), w))"

definition banner :: string where
  "banner = ''*** Please ask your model questions about Azure services. Type 'end' to end the session.''
     @ [CHR 0x0A]"

definition qa_session :: "services \<Rightarrow> string list \<Rightarrow> unit prog" where
  "qa_session sv inputs w = qa_loop sv inputs (emit (Print banner) w)"

section \<open>The vCore ingestion notebook\<close>

text \<open>
  The setup cell drops the database when \<^verbatim>\<open>list_database_names\<close> lists it and creates
  both collections again, each with its vector index on \<^verbatim>\<open>contentVector\<close>. The database is
  listed once its collections have been created or a document is stored in it.
\<close>

definition database_listed :: "world \<Rightarrow> bool" where
  "database_listed w = (database_created w \<or> items w \<noteq> [] \<or> cache w \<noteq> [])"

definition drop_database :: "world \<Rightarrow> world" where
  "drop_database w = emit DropDatabase (w\<lparr>items := [], cache := [], database_created := False\<rparr>)"

definition create_collection_and_vector_index :: "string \<Rightarrow> world \<Rightarrow> world" where
  "create_collection_and_vector_index collection_name w =
     emit (CreateIndexes collection_name) (w\<lparr>database_created := True\<rparr>)"

definition setup_database :: "string \<Rightarrow> string \<Rightarrow> world \<Rightarrow> world" where
  "setup_database mongo_products_collection mongo_cache_collection w =
     (let w1 = (if database_listed w then drop_database w else w);
          w2 = create_collection_and_vector_index mongo_products_collection w1
      in create_collection_and_vector_index mongo_cache_collection w2)"

text \<open>\<^verbatim>\<open>products_collection.insert_one(obj)\<close>.\<close>

definition items_insert_one :: "services \<Rightarrow> pyval \<Rightarrow> unit prog" where
  "items_insert_one sv obj w =
     (case obj of
        PyDict kvs \<Rightarrow>
          (let w1 = emit (ItemInsert kvs) w in
           case db_fault sv (length (trace w)) of
             Some e \<Rightarrow> (Inl e, w1)
           | None \<Rightarrow> (Inr (), w1\<lparr>items := items w @ [\<lparr>oid = fresh_oid (items w), body = kvs\<rparr>]\<rparr>))
      | _ \<Rightarrow> (Inl TypeError, w))"

text \<open>
  The ingestion loop over the objects of the downloaded JSON array. \<^verbatim>\<open>json.dumps\<close> is a
  parameter: it gives the serialised text or raises.
\<close>

fun ingest :: "services \<Rightarrow> (pyval \<Rightarrow> py_error + string) \<Rightarrow> pyval list \<Rightarrow> unit prog" where
  "ingest sv dumps [] w = (Inr (), w)"
| "ingest sv dumps (obj # rest) w =
     (case dumps obj of
        Inl e \<Rightarrow> (Inl e, w)
      | Inr sObject \<Rightarrow>
          (case generate_embeddings_vcore sv (Text sObject) w of
             (Inl e, w1) \<Rightarrow> (Inl e, w1)
           | (Inr vectorArray, w1) \<Rightarrow>
               (case setitem obj ''contentVector'' (PyList (map PyFloat vectorArray)) of
                  Inl e \<Rightarrow> (Inl e, w1)
                | Inr obj' \<Rightarrow>
                    (case items_insert_one sv obj' w1 of
                       (Inl e, w2) \<Rightarrow> (Inl e, w2)
                     | (Inr u, w2) \<Rightarrow> ingest sv dumps rest w2))))"

definition ingest_cell ::
    "services \<Rightarrow> (pyval \<Rightarrow> py_error + string) \<Rightarrow> pyval list \<Rightarrow> string \<Rightarrow> unit prog" where
  "ingest_cell sv dumps objects name w =
     (case ingest sv dumps objects w of
        (Inl e, w1) \<Rightarrow> (Inl e, w1)
      | (Inr u, w1) \<Rightarrow>
          (Inr (),
           emit (Print (''Data inserted into collection: '' @ [CHR 0x27] @ name @ [CHR 0x27] @
                        ''.'' @ [CHR 0x0A])) w1))"

section \<open>The NoSQL notebook\<close>

text \<open>
  The container is partitioned by \<^verbatim>\<open>/id\<close>, so a document is identified by its \<^verbatim>\<open>id\<close>.
  \<^verbatim>\<open>container.upsert_item(body=object)\<close> stores the body under its id, replacing the
  document stored there; a body without a string id is refused.
\<close>

fun item_id :: "pyval \<Rightarrow> py_error + string" where
  "item_id (PyDict kvs) =
     (case map_of kvs ''id'' of
        None \<Rightarrow> Inl (CosmosHttpResponseError ''BadRequest'')
      | Some (PyStr i) \<Rightarrow> Inr i
      | Some _ \<Rightarrow> Inl TypeError)"
| "item_id _ = Inl TypeError"

fun fields :: "pyval \<Rightarrow> pydict" where
  "fields (PyDict kvs) = kvs"
| "fields _ = []"

definition upsert_item :: "services \<Rightarrow> pyval \<Rightarrow> unit prog" where
  "upsert_item sv object w =
     (let w1 = emit (Upsert object) w in
      case db_fault sv (length (trace w)) of
        Some e \<Rightarrow> (Inl e, w1)
      | None \<Rightarrow>
          (case item_id object of
             Inl e \<Rightarrow> (Inl e, w1)
           | Inr i \<Rightarrow> (Inr (), w1\<lparr>container := (container w)(i \<mapsto> fields object)\<rparr>)))"

definition progress_message :: "int \<Rightarrow> string" where
  "progress_message counter = ''Inserted '' @ py_str counter @ '' documents into collection.''"

text \<open>The \<^verbatim>\<open>for object in data\<close> loop of \<^verbatim>\<open>insert_data\<close>; it returns the counter.\<close>

fun insert_loop :: "services \<Rightarrow> pyval list \<Rightarrow> int \<Rightarrow> int prog" where
  "insert_loop sv [] counter w = (Inr counter, w)"
| "insert_loop sv (object # rest) counter w =
     (case upsert_item sv object w of
        (Inl e, w1) \<Rightarrow> (Inl e, w1)
      | (Inr u, w1) \<Rightarrow>
          (let counter = counter + 1;
               w2 = (if counter mod 100 = 0 then emit (Print (progress_message counter)) w1 else w1)
           in insert_loop sv rest counter w2))"

definition insert_data :: "services \<Rightarrow> pyval list \<Rightarrow> unit prog" where
  "insert_data sv dataset w =
     (let counter = 0;
          w0 = emit ClientEnter w
      in case insert_loop sv dataset counter w0 of
           (Inl e, w1) \<Rightarrow> (Inl e, w1)
         | (Inr counter, w1) \<Rightarrow> (Inr (), emit (Print ''Upsert completed!'') w1))"

section \<open>Reading the log\<close>

text \<open>The steps of one iteration of the interactive loop, and what each logged call is.\<close>

datatype step = Embed | Search | ReadHistory | Complete | Show | WriteCache | Other

fun step_of :: "event \<Rightarrow> step" where
  "step_of (EmbeddingsCreate t) = Embed"
| "step_of (Aggregate p) = Search"
| "step_of (CacheFind n) = ReadHistory"
| "step_of (ChatCreate m) = Complete"
| "step_of (Print s) = Show"
| "step_of (CacheInsert d) = WriteCache"
| "step_of _ = Other"

definition iteration_steps :: "step list" where
  "iteration_steps = [Embed, Search, ReadHistory, Complete, Show, Show, WriteCache]"

fun embedded :: "event list \<Rightarrow> embed_input list" where
  "embedded [] = []"
| "embedded (EmbeddingsCreate t # es) = t # embedded es"
| "embedded (e # es) = embedded es"

fun cache_writes :: "event list \<Rightarrow> pydict list" where
  "cache_writes [] = []"
| "cache_writes (CacheInsert d # es) = d # cache_writes es"
| "cache_writes (e # es) = cache_writes es"

fun upserts :: "event list \<Rightarrow> pyval list" where
  "upserts [] = []"
| "upserts (Upsert b # es) = b # upserts es"
| "upserts (e # es) = upserts es"



text \<open>What one pass of the \<^verbatim>\<open>insert_data\<close> loop logs when its counter reaches \<open>k\<close>.\<close>

definition pass_events :: "int \<times> pyval \<Rightarrow> event list" where
  "pass_events = (\<lambda>(k, object).
     Upsert object # (if k mod 100 = 0 then [Print (progress_message k)] else []))"

text \<open>The dict literal of \<^verbatim>\<open>cache_generation\<close>, named for the statements below.\<close>

definition cache_document ::
    "string \<Rightarrow> pyfloat list \<Rightarrow> chat_choice \<Rightarrow> completion_usage \<Rightarrow> string \<Rightarrow> pydict" where
  "cache_document user_prompt user_embeddings c u m =
     [(''prompt'', PyStr user_prompt),
      (''completion'', opt_str (content (message c))),
      (''completionTokens'', PyStr (py_str (completion_tokens u))),
      (''promptTokens'', PyStr (py_str (prompt_tokens u))),
      (''totalTokens'', PyStr (py_str (total_tokens u))),
      (''model'', PyStr m),
      (''vectorContent'', PyList (map PyFloat user_embeddings))]"

text \<open>Services for the examples: every request is answered, two embeddings per request.\<close>

definition demo_embedding_response :: embedding_response where
  "demo_embedding_response =
     \<lparr>data = [\<lparr>embedding = [1, 2]\<rparr>, \<lparr>embedding = [3, 4]\<rparr>]\<rparr>"

definition demo_chat_completion :: chat_completion where
  "demo_chat_completion =
     \<lparr>choices = [\<lparr>message = \<lparr>content = Some ''Use Azure ML.''\<rparr>\<rparr>],
      usage = Some \<lparr>completion_tokens = 4, prompt_tokens = 120, total_tokens = 124\<rparr>,
      model = ''gpt-35-turbo''\<rparr>"

definition demo_search_results :: "pyval list" where
  "demo_search_results =
     [PyDict [(''similarityScore'', PyFloat 1),
              (''document'', PyDict [(''title'', PyStr ''Azure ML''),
                                     (''content'', PyStr ''Azure ML trains models.'')])]]"

definition demo_services :: services where
  "demo_services =
     \<lparr>embeddings_create = (\<lambda>t x. Inr demo_embedding_response),
      aggregate = (\<lambda>t coll pipeline. Inr demo_search_results),
      chat_completions_create = (\<lambda>t messages. Inr demo_chat_completion),
      db_fault = (\<lambda>t. None),
      random_random = (\<lambda>t. 1 / 2)\<rparr>"

definition empty_world :: world where
  "empty_world =
     \<lparr>cache = [], items = [], database_created = False, container = Map.empty, trace = []\<rparr>"

text \<open>A cache that holds four earlier exchanges, and data for the NoSQL container.\<close>

definition demo_cache :: "stored list" where
  "demo_cache =
     [\<lparr>oid = 1, body = [(''prompt'', PyStr ''q1''), (''completion'', PyStr ''a1'')]\<rparr>,
      \<lparr>oid = 2, body = [(''prompt'', PyStr ''q2''), (''completion'', PyStr ''a2''),
                         (''model'', PyStr ''gpt-35-turbo'')]\<rparr>,
      \<lparr>oid = 3, body = [(''prompt'', PyStr ''q3''), (''completion'', PyStr ''a3'')]\<rparr>,
      \<lparr>oid = 4, body = [(''prompt'', PyStr ''q4''), (''completion'', PyStr ''a4'')]\<rparr>]"

definition demo_world :: world where
  "demo_world =
     \<lparr>cache = demo_cache, items = [], database_created = True, container = Map.empty,
      trace = []\<rparr>"


definition movie_v1 :: pydict where
  "movie_v1 = [(''id'', PyStr ''1''), (''title'', PyStr ''Old title'')]"

definition movie_v2 :: pydict where
  "movie_v2 = [(''id'', PyStr ''1''), (''title'', PyStr ''New title'')]"

definition stocked_world :: world where
  "stocked_world =
     \<lparr>cache = [], items = [], database_created = False, container = [''1'' \<mapsto> movie_v1],
      trace = []\<rparr>"

text \<open>A completion without content, and an embeddings endpoint that is throttled for good.\<close>

definition silent_chat_completion :: chat_completion where
  "silent_chat_completion =
     \<lparr>choices = [\<lparr>message = \<lparr>content = None\<rparr>\<rparr>],
      usage = Some \<lparr>completion_tokens = 0, prompt_tokens = 120, total_tokens = 120\<rparr>,
      model = ''gpt-35-turbo''\<rparr>"

definition silent_services :: services where
  "silent_services =
     \<lparr>embeddings_create = (\<lambda>t x. Inr demo_embedding_response),
      aggregate = (\<lambda>t coll pipeline. Inr demo_search_results),
      chat_completions_create = (\<lambda>t messages. Inr silent_chat_completion),
      db_fault = (\<lambda>t. None),
      random_random = (\<lambda>t. 1 / 2)\<rparr>"


text \<open>A cache whose first document carries the largest \<^verbatim>\<open>_id\<close>.\<close>

definition unordered_world :: world where
  "unordered_world =
     \<lparr>cache =
        [\<lparr>oid = 10, body = [(''prompt'', PyStr ''q0''), (''completion'', PyStr ''a0'')]\<rparr>,
         \<lparr>oid = 1, body = [(''prompt'', PyStr ''q1''), (''completion'', PyStr ''a1'')]\<rparr>,
         \<lparr>oid = 2, body = [(''prompt'', PyStr ''q2''), (''completion'', PyStr ''a2'')]\<rparr>,
         \<lparr>oid = 3, body = [(''prompt'', PyStr ''q3''), (''completion'', PyStr ''a3'')]\<rparr>],
      items = [], database_created = True, container = Map.empty, trace = []\<rparr>"

definition demo_dumps :: "pyval \<Rightarrow> py_error + string" where
  "demo_dumps obj = Inr ''{}''"

lemmas demo_defs = demo_world_def demo_cache_def demo_services_def demo_search_results_def
  demo_chat_completion_def demo_embedding_response_def empty_world_def

section \<open>Properties of generate\_embeddings\<close>

lemma generate_embeddings_body_Inr:
  assumes "fst (generate_embeddings_body sv text w) = Inr v"
  shows "\<exists>response d rest.
           embeddings_create sv (length (trace w)) text = Inr response \<and>
           data response = d # rest \<and> v = embedding d"
  using assms
  by (auto simp: generate_embeddings_body_def Let_def split: sum.splits list.splits)

lemma retry_loop_Inr:
  "fst (retry_loop wait a r fn w) = Inr v \<Longrightarrow> \<exists>w0. fst (fn w0) = Inr v"
proof (induction r arbitrary: a w)
  case 0
  obtain res w1 where fw: "fn w = (res, w1)"
    by (cases "fn w")
  with 0 have "fst (fn w) = Inr v"
    by (cases res) simp_all
  then show ?case
    by blast
next
  case (Suc r)
  obtain res w1 where fw: "fn w = (res, w1)"
    by (cases "fn w")
  show ?case
  proof (cases res)
    case (Inl e)
    with Suc.prems fw
    have "fst (retry_loop wait (Suc a) r fn (emit (RetryWait (wait (length (trace w1)) a)) w1)) = Inr v"
      by simp
    then show ?thesis
      by (rule Suc.IH)
  next
    case (Inr x)
    with Suc.prems fw have "fst (fn w) = Inr v"
      by simp
    then show ?thesis
      by blast
  qed
qed

lemma retry_loop_first_success:
  "fn w = (Inr v, w1) \<Longrightarrow> retry_loop wait a r fn w = (Inr v, w1)"
  by (cases r) simp_all

text \<open>
  C10. In all three notebooks generate\_embeddings returns the embedding of the first
  element of the response's data array and nothing else: whenever it returns a value,
  that value is the first embedding of a response to this input, and a response with
  data \<open>d # rest\<close> gives \<open>embedding d\<close> whatever \<open>rest\<close> is and whether the input is one
  text or a list of texts.
\<close>

theorem generate_embeddings_first_element:
  "(fst (generate_embeddings sv text w) = Inr v \<longrightarrow>
      (\<exists>response d rest. embeddings_create sv (length (trace w)) text = Inr response \<and>
         data response = d # rest \<and> v = embedding d)) \<and>
   (fst (generate_embeddings_vcore sv text w) = Inr v \<longrightarrow>
      (\<exists>response d rest. embeddings_create sv (length (trace w)) text = Inr response \<and>
         data response = d # rest \<and> v = embedding d)) \<and>
   (fst (generate_embeddings_nosql sv text w) = Inr v \<longrightarrow>
      (\<exists>t response d rest. embeddings_create sv t text = Inr response \<and>
         data response = d # rest \<and> v = embedding d)) \<and>
   (embeddings_create sv (length (trace w)) text = Inr response \<and> data response = d # rest \<longrightarrow>
      fst (generate_embeddings sv text w) = Inr (embedding d) \<and>
      fst (generate_embeddings_vcore sv text w) = Inr (embedding d) \<and>
      fst (generate_embeddings_nosql sv text w) = Inr (embedding d))"
proof (intro conjI impI)
  assume "fst (generate_embeddings sv text w) = Inr v"
  then show "\<exists>response d rest. embeddings_create sv (length (trace w)) text = Inr response \<and>
      data response = d # rest \<and> v = embedding d"
    by (auto simp: generate_embeddings_def Let_def split: sum.splits list.splits)
next
  assume "fst (generate_embeddings_vcore sv text w) = Inr v"
  then show "\<exists>response d rest. embeddings_create sv (length (trace w)) text = Inr response \<and>
      data response = d # rest \<and> v = embedding d"
    by (auto simp: generate_embeddings_vcore_def Let_def split: sum.splits list.splits)
next
  assume "fst (generate_embeddings_nosql sv text w) = Inr v"
  then have "fst (retry_loop (wait_random_exponential sv 1 10) 1 19
      (generate_embeddings_body sv text) w) = Inr v"
    by (simp add: generate_embeddings_nosql_def retry_def)
  from retry_loop_Inr [OF this]
  obtain w0 where "fst (generate_embeddings_body sv text w0) = Inr v"
    by blast
  then show "\<exists>t response d rest. embeddings_create sv t text = Inr response \<and>
      data response = d # rest \<and> v = embedding d"
    using generate_embeddings_body_Inr by blast
next
  assume a: "embeddings_create sv (length (trace w)) text = Inr response \<and> data response = d # rest"
  then show "fst (generate_embeddings sv text w) = Inr (embedding d)"
    by (simp add: generate_embeddings_def Let_def)
next
  assume a: "embeddings_create sv (length (trace w)) text = Inr response \<and> data response = d # rest"
  then show "fst (generate_embeddings_vcore sv text w) = Inr (embedding d)"
    by (simp add: generate_embeddings_vcore_def Let_def)
next
  assume a: "embeddings_create sv (length (trace w)) text = Inr response \<and> data response = d # rest"
  then have "generate_embeddings_body sv text w =
      (Inr (embedding d), emit (EmbeddingsCreate text) w)"
    by (simp add: generate_embeddings_body_def Let_def)
  then show "fst (generate_embeddings_nosql sv text w) = Inr (embedding d)"
    by (simp add: generate_embeddings_nosql_def retry_def retry_loop_first_success)
qed

theorem generate_embeddings_first_element_witness:
  "fst (generate_embeddings demo_services (Texts [''a'', ''b'']) empty_world) = Inr [1, 2] \<and>
   fst (generate_embeddings_vcore demo_services (Texts [''a'', ''b'']) empty_world) = Inr [1, 2] \<and>
   fst (generate_embeddings_nosql demo_services (Texts [''a'', ''b'']) empty_world) = Inr [1, 2]"
  using generate_embeddings_first_element
    [of demo_services "Texts [''a'', ''b'']" empty_world "[1, 2]" demo_embedding_response
      "\<lparr>embedding = [1, 2]\<rparr>" "[\<lparr>embedding = [3, 4]\<rparr>]"]
  by (simp add: demo_services_def demo_embedding_response_def)

section \<open>Lemmas about the question-and-answer notebook\<close>

lemma append_history_ok:
  "map history_message hs = map Inr ms \<Longrightarrow> append_history acc hs = Inr (acc @ ms)"
proof (induction hs arbitrary: acc ms)
  case Nil
  then show ?case by simp
next
  case (Cons h hs)
  then obtain m ms' where ms: "ms = m # ms'" "history_message h = Inr m"
      "map history_message hs = map Inr ms'"
    by (cases ms) auto
  with Cons.IH [of ms' "acc @ [m]"] show ?case
    by (simp add: bind_err_def)
qed

lemma append_results_ok:
  "map result_message rs = map Inr ms \<Longrightarrow> append_results acc rs = Inr (acc @ ms)"
proof (induction rs arbitrary: acc ms)
  case Nil
  then show ?case by simp
next
  case (Cons r rs)
  then obtain m ms' where ms: "ms = m # ms'" "result_message r = Inr m"
      "map result_message rs = map Inr ms'"
    by (cases ms) auto
  with Cons.IH [of ms' "acc @ [m]"] show ?case
    by (simp add: bind_err_def)
qed

lemma history_message_project:
  assumes "map_of (body d) ''prompt'' = Some (PyStr p)"
    and "map_of (body d) ''completion'' = Some (PyStr c)"
  shows "history_message (project [''prompt'', ''completion''] d) =
    Inr (PyDict [(''role'', PyStr ''system''), (''content'', PyStr (p @ '' '' @ c))])"
proof -
  have "map_of (filter (\<lambda>(k, v). k \<in> set [''prompt'', ''completion'']) (body d)) ''prompt''
      = Some (PyStr p)"
    using assms(1) by (intro map_of_filter_in) auto
  moreover have "map_of (filter (\<lambda>(k, v). k \<in> set [''prompt'', ''completion'']) (body d)) ''completion''
      = Some (PyStr c)"
    using assms(2) by (intro map_of_filter_in) auto
  ultimately show ?thesis
    by (simp add: history_message_def project_def bind_err_def)
qed

lemma fold_max_ge: "(a::nat) \<le> fold max xs a"
  by (induction xs arbitrary: a) (auto intro: order_trans [OF max.cobounded2])

lemma fold_max_mem: "x \<in> set xs \<Longrightarrow> (x::nat) \<le> fold max xs a"
proof (induction xs arbitrary: a)
  case Nil
  then show ?case by simp
next
  case (Cons y ys)
  show ?case
  proof (cases "x = y")
    case True
    have "max y a \<le> fold max ys (max y a)" by (rule fold_max_ge)
    with True show ?thesis by simp
  next
    case False
    with Cons show ?thesis by simp
  qed
qed

lemma fresh_oid_greater: "d \<in> set coll \<Longrightarrow> oid d < fresh_oid coll"
  unfolding fresh_oid_def using fold_max_mem [of "oid d" "map oid coll" 0] by simp

lemma sort_id_desc_increasing:
  "sorted_wrt (<) (map oid coll) \<Longrightarrow> sort_id_desc coll = rev coll"
  unfolding sort_id_desc_def
  by (simp add: sort_key_id_if_sorted strict_sorted_imp_sorted)

lemma get_conversation_history_ok:
  "db_fault sv (length (trace w)) = None \<Longrightarrow>
   get_conversation_history sv 3 w =
     (Inr (map (project [''prompt'', ''completion'']) (take 3 (sort_id_desc (cache w)))),
      emit (CacheFind 3) w)"
  by (simp add: get_conversation_history_def Let_def)

lemma emit_simps [simp]:
  "trace (emit e w) = trace w @ [e]"
  "cache (emit e w) = cache w"
  "items (emit e w) = items w"
  "container (emit e w) = container w"
  "database_created (emit e w) = database_created w"
  by (simp_all add: emit_def)

lemma generate_embeddings_run:
  "generate_embeddings sv t w = (r, w') \<Longrightarrow> w' = emit (EmbeddingsCreate t) w"
  by (auto simp: generate_embeddings_def Let_def split: sum.splits list.splits)

lemma vector_search_default_run:
  "vector_search_default sv e w = (r, w') \<Longrightarrow>
     w' = emit (Aggregate (pipeline e 3)) w \<and>
     r = aggregate sv (length (trace w)) (items w) (pipeline e 3)"
  by (auto simp: vector_search_default_def vector_search_def Let_def)

lemma generate_completion_run:
  "generate_completion sv rs u w = (r, w') \<Longrightarrow>
     (\<exists>e. r = Inl e \<and> w' = emit (CacheFind 3) w) \<or>
     (\<exists>m. w' = emit (ChatCreate m) (emit (CacheFind 3) w) \<and>
          r = chat_completions_create sv (Suc (length (trace w))) m)"
  by (auto simp: generate_completion_def get_conversation_history_def Let_def
      split: sum.splits option.splits prod.splits)

lemma cache_generation_eq:
  "cache_generation sv user_prompt emb resp w =
     (case choices resp of
        [] \<Rightarrow> (Inl IndexError, w)
      | c # _ \<Rightarrow>
          (case usage resp of
             None \<Rightarrow> (Inl TypeError, w)
           | Some u \<Rightarrow>
               (case db_fault sv (length (trace w)) of
                  Some e \<Rightarrow> (Inl e, emit (CacheInsert (cache_document user_prompt emb c u (model resp))) w)
                | None \<Rightarrow>
                    (Inr (), (emit (CacheInsert (cache_document user_prompt emb c u (model resp))) w)
                       \<lparr>cache := cache w @
                          [\<lparr>oid = fresh_oid (cache w),
                            body = cache_document user_prompt emb c u (model resp)\<rparr>]\<rparr>))))"
  by (simp add: cache_generation_def cache_insert_one_def cache_document_def Let_def
      split: list.splits option.splits)

lemma cache_document_fields:
  "map_of (cache_document u emb c us m) ''prompt'' = Some (PyStr u)"
  "map_of (cache_document u emb c us m) ''vectorContent'' = Some (PyList (map PyFloat emb))"
  by (simp_all add: cache_document_def)

lemma cache_generation_run:
  assumes "cache_generation sv u emb resp w = (r, w')"
  shows "(\<exists>err. r = Inl err \<and> w' = w) \<or>
     (\<exists>doc. map_of doc ''prompt'' = Some (PyStr u) \<and>
        map_of doc ''vectorContent'' = Some (PyList (map PyFloat emb)) \<and>
        ((\<exists>err. r = Inl err \<and> w' = emit (CacheInsert doc) w) \<or>
         (r = Inr () \<and>
          w' = (emit (CacheInsert doc) w)
                 \<lparr>cache := cache w @ [\<lparr>oid = fresh_oid (cache w), body = doc\<rparr>]\<rparr>)))"
proof (cases "choices resp")
  case Nil
  with assms show ?thesis
    by (auto simp: cache_generation_eq)
next
  case (Cons c cs)
  show ?thesis
  proof (cases "usage resp")
    case None
    with Cons assms show ?thesis
      by (auto simp: cache_generation_eq)
  next
    case (Some us)
    let ?doc = "cache_document u emb c us (model resp)"
    have "(\<exists>err. r = Inl err \<and> w' = emit (CacheInsert ?doc) w) \<or>
         (r = Inr () \<and>
          w' = (emit (CacheInsert ?doc) w)
                 \<lparr>cache := cache w @ [\<lparr>oid = fresh_oid (cache w), body = ?doc\<rparr>]\<rparr>)"
      using assms Cons Some
      by (cases "db_fault sv (length (trace w))") (auto simp: cache_generation_eq)
    then show ?thesis
      using cache_document_fields [of u emb c us "model resp"] by blast
  qed
qed

lemma qa_body_cases:
  assumes run: "qa_body sv u w = (r, w')"
  obtains
    (embed_fails) e where "r = Inl e" "w' = emit (EmbeddingsCreate (Text u)) w"
  | (search_fails) emb e where "fst (generate_embeddings sv (Text u) w) = Inr emb"
      "r = Inl e"
      "w' = emit (Aggregate (pipeline emb 3)) (emit (EmbeddingsCreate (Text u)) w)"
  | (history_fails) emb e where "fst (generate_embeddings sv (Text u) w) = Inr emb"
      "r = Inl e"
      "w' = emit (CacheFind 3) (emit (Aggregate (pipeline emb 3))
              (emit (EmbeddingsCreate (Text u)) w))"
  | (completion_fails) emb m e where "fst (generate_embeddings sv (Text u) w) = Inr emb"
      "r = Inl e"
      "w' = emit (ChatCreate m) (emit (CacheFind 3) (emit (Aggregate (pipeline emb 3))
              (emit (EmbeddingsCreate (Text u)) w)))"
  | (no_choice) emb m e where "fst (generate_embeddings sv (Text u) w) = Inr emb"
      "r = Inl e"
      "w' = emit (Print (CHR 0x0A # u)) (emit (ChatCreate m) (emit (CacheFind 3)
              (emit (Aggregate (pipeline emb 3)) (emit (EmbeddingsCreate (Text u)) w))))"
  | (no_usage) emb m out e where "fst (generate_embeddings sv (Text u) w) = Inr emb"
      "r = Inl e"
      "w' = emit (Print out) (emit (Print (CHR 0x0A # u)) (emit (ChatCreate m)
              (emit (CacheFind 3) (emit (Aggregate (pipeline emb 3))
              (emit (EmbeddingsCreate (Text u)) w)))))"
  | (insert_fails) emb m out doc e where "fst (generate_embeddings sv (Text u) w) = Inr emb"
      "r = Inl e"
      "map_of doc ''prompt'' = Some (PyStr u)"
      "map_of doc ''vectorContent'' = Some (PyList (map PyFloat emb))"
      "w' = emit (CacheInsert doc) (emit (Print out) (emit (Print (CHR 0x0A # u))
              (emit (ChatCreate m) (emit (CacheFind 3) (emit (Aggregate (pipeline emb 3))
              (emit (EmbeddingsCreate (Text u)) w))))))"
  | (success) emb m out doc where "fst (generate_embeddings sv (Text u) w) = Inr emb"
      "r = Inr ()"
      "map_of doc ''prompt'' = Some (PyStr u)"
      "map_of doc ''vectorContent'' = Some (PyList (map PyFloat emb))"
      "w' = (emit (CacheInsert doc) (emit (Print out) (emit (Print (CHR 0x0A # u))
              (emit (ChatCreate m) (emit (CacheFind 3) (emit (Aggregate (pipeline emb 3))
              (emit (EmbeddingsCreate (Text u)) w)))))))
            \<lparr>cache := cache w @ [\<lparr>oid = fresh_oid (cache w), body = doc\<rparr>]\<rparr>"
proof -
  obtain r1 w1 where g: "generate_embeddings sv (Text u) w = (r1, w1)"
    by (cases "generate_embeddings sv (Text u) w")
  then have w1: "w1 = emit (EmbeddingsCreate (Text u)) w"
    by (rule generate_embeddings_run)
  show thesis
  proof (cases r1)
    case (Inl e)
    with run g w1 show thesis
      by (intro embed_fails [of e]) (simp_all add: qa_body_def)
  next
    case emb: (Inr emb)
    with g have ge: "fst (generate_embeddings sv (Text u) w) = Inr emb"
      by simp
    obtain r2 w2 where v: "vector_search_default sv emb w1 = (r2, w2)"
      by (cases "vector_search_default sv emb w1")
    then have w2: "w2 = emit (Aggregate (pipeline emb 3)) w1"
      by (simp add: vector_search_default_run)
    show thesis
    proof (cases r2)
      case (Inl e)
      with run g emb v w1 w2 show thesis
        by (intro search_fails [of emb e, OF ge]) (simp_all add: qa_body_def)
    next
      case res: (Inr results)
      obtain r3 w3 where c: "generate_completion sv results u w2 = (r3, w3)"
        by (cases "generate_completion sv results u w2")
      from generate_completion_run [OF c]
      consider e where "r3 = Inl e" "w3 = emit (CacheFind 3) w2"
        | m where "w3 = emit (ChatCreate m) (emit (CacheFind 3) w2)"
        by blast
      then show thesis
      proof cases
        case 1
        with run g emb v res c w1 w2 show thesis
          by (intro history_fails [of emb e, OF ge]) (simp_all add: qa_body_def)
      next
        case 2
        show thesis
        proof (cases r3)
          case (Inl e)
          with 2 run g emb v res c w1 w2 show thesis
            by (intro completion_fails [of emb e m, OF ge]) (simp_all add: qa_body_def)
        next
          case comp: (Inr completion)
          let ?w4 = "emit (Print (CHR 0x0A # u)) w3"
          show thesis
          proof (cases "choices completion")
            case Nil
            with comp 2 run g emb v res c w1 w2 show thesis
              by (intro no_choice [of emb IndexError m, OF ge]) (simp_all add: qa_body_def)
          next
            case (Cons ch chs)
            let ?out = "print_text (content (message ch))"
            let ?w5 = "emit (Print ?out) ?w4"
            from Cons comp run g emb v res c
            have cg: "cache_generation sv u emb completion ?w5 = (r, w')"
              by (simp add: qa_body_def)
            from cache_generation_run [OF cg]
            consider err where "r = Inl err" "w' = ?w5"
              | doc err where "map_of doc ''prompt'' = Some (PyStr u)"
                  "map_of doc ''vectorContent'' = Some (PyList (map PyFloat emb))"
                  "r = Inl err" "w' = emit (CacheInsert doc) ?w5"
              | doc where "map_of doc ''prompt'' = Some (PyStr u)"
                  "map_of doc ''vectorContent'' = Some (PyList (map PyFloat emb))"
                  "r = Inr ()"
                  "w' = (emit (CacheInsert doc) ?w5)
                     \<lparr>cache := cache ?w5 @ [\<lparr>oid = fresh_oid (cache ?w5), body = doc\<rparr>]\<rparr>"
              by blast
            then show thesis
            proof cases
              case 1
              with 2 w1 w2 show thesis
                by (intro no_usage [of emb err ?out m, OF ge]) simp_all
            next
              case 2
              with \<open>w3 = emit (ChatCreate m) (emit (CacheFind 3) w2)\<close> w1 w2 show thesis
                by (intro insert_fails [of emb err doc ?out m, OF ge]) simp_all
            next
              case 3
              with \<open>w3 = emit (ChatCreate m) (emit (CacheFind 3) w2)\<close> w1 w2 show thesis
                by (intro success [of emb doc ?out m, OF ge]) simp_all
            qed
          qed
        qed
      qed
    qed
  qed
qed

lemma embedded_append: "embedded (xs @ ys) = embedded xs @ embedded ys"
  by (induction xs rule: embedded.induct) simp_all

lemma cache_writes_append: "cache_writes (xs @ ys) = cache_writes xs @ cache_writes ys"
  by (induction xs rule: cache_writes.induct) simp_all

lemma qa_body_summary:
  assumes run: "qa_body sv u w = (r, w1)"
  shows "\<exists>added qs news.
    trace w1 = trace w @ added \<and> cache w1 = cache w @ news \<and>
    items w1 = items w \<and> container w1 = container w \<and>
    prefix (map step_of added) iteration_steps \<and>
    embedded added = [Text u] \<and>
    prefix qs [u] \<and>
    map (\<lambda>d. map_of d ''prompt'') (cache_writes added) = map (\<lambda>u. Some (PyStr u)) qs \<and>
    prefix (map body news) (cache_writes added) \<and>
    (r = Inr () \<longrightarrow> map step_of added = iteration_steps \<and> qs = [u] \<and>
       map body news = cache_writes added)"
  using run
proof (cases rule: qa_body_cases)
  case (embed_fails e)
  show ?thesis
    by (rule exI [of _ "[EmbeddingsCreate (Text u)]"], rule exI [of _ "[]"], rule exI [of _ "[]"],
        insert embed_fails, simp add: iteration_steps_def)
next
  case (search_fails emb e)
  show ?thesis
    by (rule exI [of _ "[EmbeddingsCreate (Text u), Aggregate (pipeline emb 3)]"], rule exI [of _ "[]"], rule exI [of _ "[]"],
        insert search_fails, simp add: iteration_steps_def)
next
  case (history_fails emb e)
  show ?thesis
    by (rule exI [of _ "[EmbeddingsCreate (Text u), Aggregate (pipeline emb 3), CacheFind 3]"], rule exI [of _ "[]"], rule exI [of _ "[]"],
        insert history_fails, simp add: iteration_steps_def)
next
  case (completion_fails emb m e)
  show ?thesis
    by (rule exI [of _ "[EmbeddingsCreate (Text u), Aggregate (pipeline emb 3), CacheFind 3,
          ChatCreate m]"], rule exI [of _ "[]"], rule exI [of _ "[]"],
        insert completion_fails, simp add: iteration_steps_def)
next
  case (no_choice emb m e)
  show ?thesis
    by (rule exI [of _ "[EmbeddingsCreate (Text u), Aggregate (pipeline emb 3), CacheFind 3,
          ChatCreate m, Print (CHR 0x0A # u)]"], rule exI [of _ "[]"], rule exI [of _ "[]"],
        insert no_choice, simp add: iteration_steps_def)
next
  case (no_usage emb m out e)
  show ?thesis
    by (rule exI [of _ "[EmbeddingsCreate (Text u), Aggregate (pipeline emb 3), CacheFind 3,
          ChatCreate m, Print (CHR 0x0A # u), Print out]"], rule exI [of _ "[]"], rule exI [of _ "[]"],
        insert no_usage, simp add: iteration_steps_def)
next
  case (insert_fails emb m out doc e)
  show ?thesis
    by (rule exI [of _ "[EmbeddingsCreate (Text u), Aggregate (pipeline emb 3), CacheFind 3,
          ChatCreate m, Print (CHR 0x0A # u), Print out, CacheInsert doc]"], rule exI [of _ "[u]"], rule exI [of _ "[]"],
        insert insert_fails, simp add: iteration_steps_def)
next
  case (success emb m out doc)
  show ?thesis
    by (rule exI [of _ "[EmbeddingsCreate (Text u), Aggregate (pipeline emb 3), CacheFind 3,
          ChatCreate m, Print (CHR 0x0A # u), Print out, CacheInsert doc]"], rule exI [of _ "[u]"], rule exI [of _ "[\<lparr>oid = fresh_oid (cache w), body = doc\<rparr>]"],
        insert success, simp add: iteration_steps_def)
qed

lemma qa_loop_run:
  "\<exists>added ps qs news.
     trace (snd (qa_loop sv inputs w)) = trace w @ added \<and>
     cache (snd (qa_loop sv inputs w)) = cache w @ news \<and>
     items (snd (qa_loop sv inputs w)) = items w \<and>
     container (snd (qa_loop sv inputs w)) = container w \<and>
     prefix (map step_of added)
       (concat (map (\<lambda>u. iteration_steps) (takeWhile (\<lambda>u. lower u \<noteq> ''end'') inputs))) \<and>
     prefix ps (takeWhile (\<lambda>u. lower u \<noteq> ''end'') inputs) \<and>
     embedded added = map Text ps \<and>
     prefix qs (takeWhile (\<lambda>u. lower u \<noteq> ''end'') inputs) \<and>
     map (\<lambda>d. map_of d ''prompt'') (cache_writes added) = map (\<lambda>u. Some (PyStr u)) qs \<and>
     prefix (map body news) (cache_writes added) \<and>
     (fst (qa_loop sv inputs w) = Inr () \<longrightarrow>
        map step_of added =
          concat (map (\<lambda>u. iteration_steps) (takeWhile (\<lambda>u. lower u \<noteq> ''end'') inputs)) \<and>
        ps = takeWhile (\<lambda>u. lower u \<noteq> ''end'') inputs \<and>
        qs = takeWhile (\<lambda>u. lower u \<noteq> ''end'') inputs \<and>
        map body news = cache_writes added \<and>
        takeWhile (\<lambda>u. lower u \<noteq> ''end'') inputs \<noteq> inputs)"
proof (induction inputs arbitrary: w)
  case Nil
  show ?case
    by (rule exI [of _ "[]"]) simp
next
  case (Cons u rest)
  let ?p = "takeWhile (\<lambda>u. lower u \<noteq> ''end'') rest"
  show ?case
  proof (cases "lower u = ''end''")
    case True
    show ?thesis
      by (rule exI [of _ "[]"], insert True, simp)
  next
    case False
    obtain r w1 where run: "qa_body sv u w = (r, w1)"
      by (cases "qa_body sv u w")
    from qa_body_summary [OF run] obtain added1 qs1 news1 where b:
      "trace w1 = trace w @ added1" "cache w1 = cache w @ news1"
      "items w1 = items w" "container w1 = container w"
      "prefix (map step_of added1) iteration_steps"
      "embedded added1 = [Text u]"
      "prefix qs1 [u]"
      "map (\<lambda>d. map_of d ''prompt'') (cache_writes added1) = map (\<lambda>u. Some (PyStr u)) qs1"
      "prefix (map body news1) (cache_writes added1)"
      "r = Inr () \<longrightarrow> map step_of added1 = iteration_steps \<and> qs1 = [u] \<and>
         map body news1 = cache_writes added1"
      by blast
    show ?thesis
    proof (cases r)
      case (Inl e)
      with run False have res: "qa_loop sv (u # rest) w = (Inl e, w1)"
        by simp
      have "prefix (map step_of added1) (iteration_steps @ concat (map (\<lambda>u. iteration_steps) ?p))"
        using b(5) by (rule prefix_prefix)
      moreover have "prefix [u] (u # ?p)" by simp
      moreover have "prefix qs1 (u # ?p)"
        using b(7) by (rule prefix_order.trans) simp
      ultimately show ?thesis
        using b False unfolding res
        apply -
        apply (rule exI [of _ added1], rule exI [of _ "[u]"], rule exI [of _ qs1],
            rule exI [of _ news1])
        apply simp
        done
    next
      case (Inr x)
      with run False have res: "qa_loop sv (u # rest) w = qa_loop sv rest w1"
        by simp
      from Inr b have s:
        "map step_of added1 = iteration_steps" "qs1 = [u]" "map body news1 = cache_writes added1"
        by simp_all
      from Cons.IH [of w1] obtain added2 ps2 qs2 news2 where ih:
        "trace (snd (qa_loop sv rest w1)) = trace w1 @ added2"
        "cache (snd (qa_loop sv rest w1)) = cache w1 @ news2"
        "items (snd (qa_loop sv rest w1)) = items w1"
        "container (snd (qa_loop sv rest w1)) = container w1"
        "prefix (map step_of added2) (concat (map (\<lambda>u. iteration_steps) ?p))"
        "prefix ps2 ?p"
        "embedded added2 = map Text ps2"
        "prefix qs2 ?p"
        "map (\<lambda>d. map_of d ''prompt'') (cache_writes added2) = map (\<lambda>u. Some (PyStr u)) qs2"
        "prefix (map body news2) (cache_writes added2)"
        "fst (qa_loop sv rest w1) = Inr () \<longrightarrow>
           map step_of added2 = concat (map (\<lambda>u. iteration_steps) ?p) \<and>
           ps2 = ?p \<and> qs2 = ?p \<and> map body news2 = cache_writes added2 \<and> ?p \<noteq> rest"
        by blast
      show ?thesis
        unfolding res
        using b(1-4,6,8) s ih False
        apply -
        apply (rule exI [of _ "added1 @ added2"], rule exI [of _ "u # ps2"],
            rule exI [of _ "u # qs2"], rule exI [of _ "news1 @ news2"])
        apply (simp add: embedded_append cache_writes_append)
        done
    qed
  qed
qed



lemma demo_qa_loop_ok:
  "fst (qa_loop demo_services [''What is Azure ML?'', ''End'', ''ignored''] demo_world) = Inr ()"
  by (simp add: qa_body_def generate_embeddings_def vector_search_default_def vector_search_def
      generate_completion_def get_conversation_history_def cache_generation_def
      cache_insert_one_def sort_id_desc_def project_def history_message_def result_message_def
      bind_err_def Let_def lower_def lower_char_def demo_defs)

section \<open>What a completed iteration has done\<close>

lemma map_of_filter_keys:
  "map_of (filter (\<lambda>(k, v). k \<in> S) kvs) k = (if k \<in> S then map_of kvs k else None)"
  by (induction kvs) auto

lemma str_add_Inr:
  "str_add a b = Inr s \<Longrightarrow> \<exists>x y. a = PyStr x \<and> b = PyStr y \<and> s = PyStr (x @ y)"
  by (cases "(a, b)" rule: str_add.cases) auto

lemma history_message_Inr:
  assumes "history_message (project [''prompt'', ''completion''] d) = Inr m"
  shows "\<exists>p c. map_of (body d) ''prompt'' = Some (PyStr p) \<and>
               map_of (body d) ''completion'' = Some (PyStr c)"
proof -
  let ?kvs = "filter (\<lambda>(k, v). k \<in> set [''prompt'', ''completion'']) (body d)"
  have g: "getitem (project [''prompt'', ''completion''] d) k =
      (case map_of ?kvs k of None \<Rightarrow> Inl (KeyError k) | Some v \<Rightarrow> Inr v)"
    if "k \<noteq> ''_id''" for k
    using that by (simp add: project_def)
  have mp: "map_of ?kvs ''prompt'' = map_of (body d) ''prompt''"
    and mc: "map_of ?kvs ''completion'' = map_of (body d) ''completion''"
    using map_of_filter_keys [of "set [''prompt'', ''completion'']" "body d" "''prompt''"]
      map_of_filter_keys [of "set [''prompt'', ''completion'']" "body d" "''completion''"]
    by simp_all
  from assms obtain p ps c s where
    "getitem (project [''prompt'', ''completion''] d) ''prompt'' = Inr p"
    "str_add p (PyStr '' '') = Inr ps"
    "getitem (project [''prompt'', ''completion''] d) ''completion'' = Inr c"
    "str_add ps c = Inr s"
    by (auto simp: history_message_def bind_err_def split: sum.splits)
  then show ?thesis
    using g [of "''prompt''"] g [of "''completion''"] mp mc
    by (auto split: option.splits dest!: str_add_Inr)
qed

lemma append_history_Inr:
  "append_history acc (map (project [''prompt'', ''completion'']) hs) = Inr ms \<Longrightarrow>
   \<exists>history. map (\<lambda>d. (map_of (body d) ''prompt'', map_of (body d) ''completion'')) hs =
      map (\<lambda>(p, c). (Some (PyStr p), Some (PyStr c))) history"
proof (induction hs arbitrary: acc)
  case Nil
  show ?case
    by (rule exI [of _ "[]"]) simp
next
  case (Cons d hs)
  from Cons.prems obtain m where m: "history_message (project [''prompt'', ''completion''] d) = Inr m"
    and r: "append_history (acc @ [m]) (map (project [''prompt'', ''completion'']) hs) = Inr ms"
    by (auto simp: bind_err_def split: sum.splits)
  from history_message_Inr [OF m] obtain p c where
    "map_of (body d) ''prompt'' = Some (PyStr p)" "map_of (body d) ''completion'' = Some (PyStr c)"
    by blast
  moreover from Cons.IH [OF r] obtain history where
    "map (\<lambda>d. (map_of (body d) ''prompt'', map_of (body d) ''completion'')) hs =
      map (\<lambda>(p, c). (Some (PyStr p), Some (PyStr c))) history"
    by blast
  ultimately show ?case
    by (intro exI [of _ "(p, c) # history"]) simp
qed

lemma append_results_Inr:
  "append_results acc rs = Inr ms \<Longrightarrow>
   \<exists>contents. map (\<lambda>r. bind_err (getitem r ''document'') (\<lambda>d. getitem d ''content'')) rs =
      map Inr contents"
proof (induction rs arbitrary: acc)
  case Nil
  show ?case
    by (rule exI [of _ "[]"]) simp
next
  case (Cons r rs)
  from Cons.prems obtain m where m: "result_message r = Inr m"
    and rest: "append_results (acc @ [m]) rs = Inr ms"
    by (auto simp: bind_err_def split: sum.splits)
  from m obtain c where
    "bind_err (getitem r ''document'') (\<lambda>d. getitem d ''content'') = Inr c"
    by (auto simp: result_message_def bind_err_def split: sum.splits)
  moreover from Cons.IH [OF rest] obtain contents where
    "map (\<lambda>r. bind_err (getitem r ''document'') (\<lambda>d. getitem d ''content'')) rs =
      map Inr contents"
    by blast
  ultimately show ?case
    by (intro exI [of _ "c # contents"]) simp
qed

lemma generate_completion_raises_or_wellformed:
  "(\<exists>e. generate_completion sv vector_search_results user_prompt w =
         (Inl e, emit (CacheFind 3) w)) \<or>
   (\<exists>history contents.
      db_fault sv (length (trace w)) = None \<and>
      map (\<lambda>d. (map_of (body d) ''prompt'', map_of (body d) ''completion''))
        (take 3 (sort_id_desc (cache w))) =
      map (\<lambda>(p, c). (Some (PyStr p), Some (PyStr c))) history \<and>
      map (\<lambda>r. bind_err (getitem r ''document'') (\<lambda>d. getitem d ''content''))
        vector_search_results = map Inr contents)"
proof (cases "db_fault sv (length (trace w))")
  case (Some e)
  then show ?thesis
    by (simp add: generate_completion_def get_conversation_history_def Let_def)
next
  case None
  let ?sys = "[PyDict [(''role'', PyStr ''system''), (''content'', PyStr system_prompt)]]"
  let ?hs = "take 3 (sort_id_desc (cache w))"
  note h = get_conversation_history_ok [OF None]
  show ?thesis
  proof (cases "append_history ?sys (map (project [''prompt'', ''completion'']) ?hs)")
    case (Inl e)
    then show ?thesis
      by (simp add: generate_completion_def h)
  next
    case hist: (Inr ms)
    let ?ms = "ms @ [PyDict [(''role'', PyStr ''user''), (''content'', PyStr user_prompt)]]"
    show ?thesis
    proof (cases "append_results ?ms vector_search_results")
      case (Inl e)
      with hist show ?thesis
        by (simp add: generate_completion_def h)
    next
      case (Inr ms')
      from append_history_Inr [OF hist] append_results_Inr [OF Inr] None
      show ?thesis
        by blast
    qed
  qed
qed

lemma generate_completion_sends:
  assumes db: "db_fault sv (length (trace w)) = None"
    and hist: "map (\<lambda>d. (map_of (body d) ''prompt'', map_of (body d) ''completion''))
                 (take 3 (sort_id_desc (cache w))) =
               map (\<lambda>(p, c). (Some (PyStr p), Some (PyStr c))) history"
    and res: "map (\<lambda>r. bind_err (getitem r ''document'') (\<lambda>d. getitem d ''content''))
                 vector_search_results = map Inr contents"
  shows "\<exists>messages.
     messages =
       [PyDict [(''role'', PyStr ''system''), (''content'', PyStr system_prompt)]] @
       map (\<lambda>(p, c). PyDict [(''role'', PyStr ''system''), (''content'', PyStr (p @ '' '' @ c))])
         history @
       [PyDict [(''role'', PyStr ''user''), (''content'', PyStr user_prompt)]] @
       map (\<lambda>c. PyDict [(''role'', PyStr ''system''), (''content'', c)]) contents \<and>
     generate_completion sv vector_search_results user_prompt w =
       (chat_completions_create sv (Suc (length (trace w))) messages,
        w\<lparr>trace := trace w @ [CacheFind 3, ChatCreate messages]\<rparr>) \<and>
     length messages = 2 + min 3 (length (cache w)) + length vector_search_results \<and>
     (sorted_wrt (<) (map oid (cache w)) \<longrightarrow>
        take 3 (sort_id_desc (cache w)) = take 3 (rev (cache w)))"
proof -
  let ?hs = "take 3 (sort_id_desc (cache w))"
  let ?hm = "map (\<lambda>(p, c). PyDict [(''role'', PyStr ''system''), (''content'', PyStr (p @ '' '' @ c))])
         history"
  let ?rm = "map (\<lambda>c. PyDict [(''role'', PyStr ''system''), (''content'', c)]) contents"
  have len_h: "length history = length ?hs"
    using arg_cong [OF hist, of length] by simp
  have len_r: "length contents = length vector_search_results"
    using arg_cong [OF res, of length] by simp
  have h: "map history_message (map (project [''prompt'', ''completion'']) ?hs) = map Inr ?hm"
  proof (rule nth_equalityI)
    show "length (map history_message (map (project [''prompt'', ''completion'']) ?hs)) =
        length (map Inr ?hm)"
      using len_h by simp
  next
    fix i
    assume "i < length (map history_message (map (project [''prompt'', ''completion'']) ?hs))"
    then have i: "i < length ?hs" by simp
    obtain p c where pc: "history ! i = (p, c)" by (cases "history ! i")
    from i len_h have
      "(map (\<lambda>d. (map_of (body d) ''prompt'', map_of (body d) ''completion'')) ?hs) ! i =
       (map (\<lambda>(p, c). (Some (PyStr p), Some (PyStr c))) history) ! i"
      using hist by simp
    with i len_h pc have "map_of (body (?hs ! i)) ''prompt'' = Some (PyStr p)"
      and "map_of (body (?hs ! i)) ''completion'' = Some (PyStr c)"
      by simp_all
    from history_message_project [OF this] i len_h pc
    show "map history_message (map (project [''prompt'', ''completion'']) ?hs) ! i =
        map Inr ?hm ! i"
      by simp
  qed
  have r: "map result_message vector_search_results = map Inr ?rm"
  proof (rule nth_equalityI)
    show "length (map result_message vector_search_results) = length (map Inr ?rm)"
      using len_r by simp
  next
    fix i
    assume "i < length (map result_message vector_search_results)"
    then have i: "i < length vector_search_results" by simp
    with len_r have
      "bind_err (getitem (vector_search_results ! i) ''document'') (\<lambda>d. getitem d ''content'') =
       Inr (contents ! i)"
      using arg_cong [OF res, of "\<lambda>xs. xs ! i"] by simp
    then have "result_message (vector_search_results ! i) =
        Inr (PyDict [(''role'', PyStr ''system''), (''content'', contents ! i)])"
      by (auto simp: result_message_def bind_err_def split: sum.splits)
    with i len_r show "map result_message vector_search_results ! i = map Inr ?rm ! i"
      by simp
  qed
  have run: "generate_completion sv vector_search_results user_prompt w =
       (chat_completions_create sv (Suc (length (trace w)))
          ([PyDict [(''role'', PyStr ''system''), (''content'', PyStr system_prompt)]] @ ?hm @
           [PyDict [(''role'', PyStr ''user''), (''content'', PyStr user_prompt)]] @ ?rm),
        w\<lparr>trace := trace w @ [CacheFind 3,
          ChatCreate ([PyDict [(''role'', PyStr ''system''), (''content'', PyStr system_prompt)]] @ ?hm @
           [PyDict [(''role'', PyStr ''user''), (''content'', PyStr user_prompt)]] @ ?rm)]\<rparr>)"
    unfolding generate_completion_def
    by (simp add: get_conversation_history_ok [OF db] append_history_ok [OF h]
        append_results_ok [OF r] emit_def)
  have len: "length ?hs = min 3 (length (cache w))"
    by (simp add: sort_id_desc_def min.commute)
  show ?thesis
    using run len len_h len_r by (simp add: sort_id_desc_increasing)
qed

lemmas run_defs = qa_body_def generate_embeddings_def vector_search_default_def vector_search_def
  generate_completion_def get_conversation_history_def cache_generation_def
  cache_insert_one_def sort_id_desc_def project_def history_message_def result_message_def
  bind_err_def Let_def





section \<open>The claims about the question-and-answer notebook\<close>

text \<open>
  C7. For every query embedding and every \<open>num_results\<close> (3 when left out),
  \<open>vector_search\<close> sends exactly one aggregation, logged as one \<open>Aggregate\<close> call and
  nothing else, and returns what the database answers to it unchanged. The pipeline has
  two stages: a \<^verbatim>\<open>$search\<close> stage whose \<^verbatim>\<open>cosmosSearch\<close> holds the given vector, the path
  \<^verbatim>\<open>contentVector\<close> and \<open>k = num_results\<close>, and a \<^verbatim>\<open>$project\<close> stage that exposes the search
  score as \<^verbatim>\<open>similarityScore\<close> and the whole document as \<^verbatim>\<open>document\<close>.
\<close>

theorem vector_search_fixed_pipeline:
  "vector_search sv query_embedding num_results w =
     (aggregate sv (length (trace w)) (items w) (pipeline query_embedding num_results),
      w\<lparr>trace := trace w @ [Aggregate (pipeline query_embedding num_results)]\<rparr>) \<and>
   vector_search_default sv query_embedding w = vector_search sv query_embedding 3 w \<and>
   (\<exists>search_stage project_stage.
      pipeline query_embedding num_results =
        [PyDict [(''$search'', search_stage)], PyDict [(''$project'', project_stage)]] \<and>
      getitem search_stage ''cosmosSearch'' =
        Inr (PyDict [(''vector'', PyList (map PyFloat query_embedding)),
                     (''path'', PyStr ''contentVector''),
                     (''k'', PyInt num_results)]) \<and>
      project_stage =
        PyDict [(''similarityScore'', PyDict [(''$meta'', PyStr ''searchScore'')]),
                (''document'', PyStr ''$$ROOT'')])"
  by (simp add: vector_search_def vector_search_default_def pipeline_def emit_def)

text \<open>
  C1, amended. In every state \<open>generate_completion\<close> either raises before any completion
  request, having logged the history read only, or sends exactly this message list: the
  system prompt, one system message \<open>prompt @ '' '' @ completion\<close> per history document,
  the user prompt, one system message per search result with that result's content. It
  sends the list exactly when the history read answers, the (at most three) cache
  documents with the largest \<^verbatim>\<open>_id\<close> carry a string \<^verbatim>\<open>prompt\<close> and a string \<^verbatim>\<open>completion\<close>, and
  every search result carries \<^verbatim>\<open>document.content\<close>. The history documents are those with
  the largest \<^verbatim>\<open>_id\<close>, in descending \<^verbatim>\<open>_id\<close> order; they are the ones inserted last where
  the ids grow with insertion. Nothing is dropped, reordered or cut: the length is
  \<open>2 + min 3 (length cache) + length results\<close>.
\<close>

theorem generate_completion_messages:
  "(db_fault sv (length (trace w)) = None \<and>
    map (\<lambda>d. (map_of (body d) ''prompt'', map_of (body d) ''completion''))
      (take 3 (sort_id_desc (cache w))) =
    map (\<lambda>(p, c). (Some (PyStr p), Some (PyStr c))) history \<and>
    map (\<lambda>r. bind_err (getitem r ''document'') (\<lambda>d. getitem d ''content''))
      vector_search_results = map Inr contents \<longrightarrow>
    (\<exists>messages.
       messages =
         [PyDict [(''role'', PyStr ''system''), (''content'', PyStr system_prompt)]] @
         map (\<lambda>(p, c). PyDict [(''role'', PyStr ''system''), (''content'', PyStr (p @ '' '' @ c))])
           history @
         [PyDict [(''role'', PyStr ''user''), (''content'', PyStr user_prompt)]] @
         map (\<lambda>c. PyDict [(''role'', PyStr ''system''), (''content'', c)]) contents \<and>
       generate_completion sv vector_search_results user_prompt w =
         (chat_completions_create sv (Suc (length (trace w))) messages,
          w\<lparr>trace := trace w @ [CacheFind 3, ChatCreate messages]\<rparr>) \<and>
       length messages = 2 + min 3 (length (cache w)) + length vector_search_results \<and>
       (sorted_wrt (<) (map oid (cache w)) \<longrightarrow>
          take 3 (sort_id_desc (cache w)) = take 3 (rev (cache w))))) \<and>
   ((\<exists>e. generate_completion sv vector_search_results user_prompt w =
          (Inl e, w\<lparr>trace := trace w @ [CacheFind 3]\<rparr>)) \<or>
    (\<exists>history contents.
       db_fault sv (length (trace w)) = None \<and>
       map (\<lambda>d. (map_of (body d) ''prompt'', map_of (body d) ''completion''))
         (take 3 (sort_id_desc (cache w))) =
       map (\<lambda>(p, c). (Some (PyStr p), Some (PyStr c))) history \<and>
       map (\<lambda>r. bind_err (getitem r ''document'') (\<lambda>d. getitem d ''content''))
         vector_search_results = map Inr contents))"
proof (intro conjI impI)
  assume "db_fault sv (length (trace w)) = None \<and>
    map (\<lambda>d. (map_of (body d) ''prompt'', map_of (body d) ''completion''))
      (take 3 (sort_id_desc (cache w))) =
    map (\<lambda>(p, c). (Some (PyStr p), Some (PyStr c))) history \<and>
    map (\<lambda>r. bind_err (getitem r ''document'') (\<lambda>d. getitem d ''content''))
      vector_search_results = map Inr contents"
  then have db: "db_fault sv (length (trace w)) = None"
    and hist: "map (\<lambda>d. (map_of (body d) ''prompt'', map_of (body d) ''completion''))
      (take 3 (sort_id_desc (cache w))) =
      map (\<lambda>(p, c). (Some (PyStr p), Some (PyStr c))) history"
    and res: "map (\<lambda>r. bind_err (getitem r ''document'') (\<lambda>d. getitem d ''content''))
      vector_search_results = map Inr contents"
    by simp_all
  show "\<exists>messages.
       messages =
         [PyDict [(''role'', PyStr ''system''), (''content'', PyStr system_prompt)]] @
         map (\<lambda>(p, c). PyDict [(''role'', PyStr ''system''), (''content'', PyStr (p @ '' '' @ c))])
           history @
         [PyDict [(''role'', PyStr ''user''), (''content'', PyStr user_prompt)]] @
         map (\<lambda>c. PyDict [(''role'', PyStr ''system''), (''content'', c)]) contents \<and>
       generate_completion sv vector_search_results user_prompt w =
         (chat_completions_create sv (Suc (length (trace w))) messages,
          w\<lparr>trace := trace w @ [CacheFind 3, ChatCreate messages]\<rparr>) \<and>
       length messages = 2 + min 3 (length (cache w)) + length vector_search_results \<and>
       (sorted_wrt (<) (map oid (cache w)) \<longrightarrow>
          take 3 (sort_id_desc (cache w)) = take 3 (rev (cache w)))"
    by (rule generate_completion_sends [OF db hist res])
next
  from generate_completion_raises_or_wellformed [of sv vector_search_results user_prompt w]
  show "(\<exists>e. generate_completion sv vector_search_results user_prompt w =
          (Inl e, w\<lparr>trace := trace w @ [CacheFind 3]\<rparr>)) \<or>
    (\<exists>history contents.
       db_fault sv (length (trace w)) = None \<and>
       map (\<lambda>d. (map_of (body d) ''prompt'', map_of (body d) ''completion''))
         (take 3 (sort_id_desc (cache w))) =
       map (\<lambda>(p, c). (Some (PyStr p), Some (PyStr c))) history \<and>
       map (\<lambda>r. bind_err (getitem r ''document'') (\<lambda>d. getitem d ''content''))
         vector_search_results = map Inr contents)"
    by (simp add: emit_def)
qed

theorem generate_completion_messages_witness:
  "generate_completion demo_services demo_search_results ''What is Azure ML?'' demo_world =
     (Inr demo_chat_completion,
      demo_world\<lparr>trace :=
        [CacheFind 3,
         ChatCreate
           [PyDict [(''role'', PyStr ''system''), (''content'', PyStr system_prompt)],
            PyDict [(''role'', PyStr ''system''), (''content'', PyStr ''q4 a4'')],
            PyDict [(''role'', PyStr ''system''), (''content'', PyStr ''q3 a3'')],
            PyDict [(''role'', PyStr ''system''), (''content'', PyStr ''q2 a2'')],
            PyDict [(''role'', PyStr ''user''), (''content'', PyStr ''What is Azure ML?'')],
            PyDict [(''role'', PyStr ''system''),
                    (''content'', PyStr ''Azure ML trains models.'')]]]\<rparr>)"
proof -
  have db: "db_fault demo_services (length (trace demo_world)) = None"
    by (simp add: demo_defs)
  have hist: "map (\<lambda>d. (map_of (body d) ''prompt'', map_of (body d) ''completion''))
                 (take 3 (sort_id_desc (cache demo_world))) =
               map (\<lambda>(p, c). (Some (PyStr p), Some (PyStr c)))
                 [(''q4'', ''a4''), (''q3'', ''a3''), (''q2'', ''a2'')]"
    by (simp add: demo_defs sort_id_desc_def)
  have res: "map (\<lambda>r. bind_err (getitem r ''document'') (\<lambda>d. getitem d ''content''))
                 demo_search_results = map Inr [PyStr ''Azure ML trains models.'']"
    by (simp add: demo_defs bind_err_def)
  note inst = generate_completion_messages [where sv = demo_services and w = demo_world
      and history = "[(''q4'', ''a4''), (''q3'', ''a3''), (''q2'', ''a2'')]"
      and vector_search_results = demo_search_results
      and contents = "[PyStr ''Azure ML trains models.'']"
      and user_prompt = "''What is Azure ML?''", THEN conjunct1, rule_format]
  from inst [OF conjI [OF db conjI [OF hist res]]]
  show ?thesis
    by (simp add: demo_defs)
qed

text \<open>
  C1 as stated fails. A completion without content is cached with \<^verbatim>\<open>completion\<close> \<open>None\<close>;
  at the next question \<open>generate_completion\<close> raises TypeError on that document and no
  message list is sent. And in a cache whose first document has the largest \<^verbatim>\<open>_id\<close>, the
  history holds that oldest document, not the three inserted last.
\<close>

theorem generate_completion_breaks:
  "fst (qa_body silent_services ''q1'' empty_world) = Inr () \<and>
   map body (cache (snd (qa_body silent_services ''q1'' empty_world))) =
     [[(''prompt'', PyStr ''q1''),
       (''completion'', PyNone),
       (''completionTokens'', PyStr ''0''),
       (''promptTokens'', PyStr ''120''),
       (''totalTokens'', PyStr ''120''),
       (''model'', PyStr ''gpt-35-turbo''),
       (''vectorContent'', PyList [PyFloat 1, PyFloat 2])]] \<and>
   generate_completion silent_services demo_search_results ''q2''
       (snd (qa_body silent_services ''q1'' empty_world)) =
     (Inl TypeError, emit (CacheFind 3) (snd (qa_body silent_services ''q1'' empty_world))) \<and>
   generate_completion demo_services [] ''q4'' unordered_world =
     (Inr demo_chat_completion,
      unordered_world\<lparr>trace :=
        [CacheFind 3,
         ChatCreate
           [PyDict [(''role'', PyStr ''system''), (''content'', PyStr system_prompt)],
            PyDict [(''role'', PyStr ''system''), (''content'', PyStr ''q0 a0'')],
            PyDict [(''role'', PyStr ''system''), (''content'', PyStr ''q3 a3'')],
            PyDict [(''role'', PyStr ''system''), (''content'', PyStr ''q2 a2'')],
            PyDict [(''role'', PyStr ''user''), (''content'', PyStr ''q4'')]]]\<rparr>)"
  by (simp add: run_defs silent_services_def silent_chat_completion_def demo_defs opt_str_def
      py_str_def str_nat.simps fresh_oid_def emit_def unordered_world_def)

text \<open>
  C4. The document \<open>cache_generation\<close> hands to \<^verbatim>\<open>insert_one\<close> has exactly the fields
  \<^verbatim>\<open>prompt\<close>, \<^verbatim>\<open>completion\<close>, \<^verbatim>\<open>completionTokens\<close>, \<^verbatim>\<open>promptTokens\<close>, \<^verbatim>\<open>totalTokens\<close>,
  \<^verbatim>\<open>model\<close> and \<^verbatim>\<open>vectorContent\<close>: the user prompt, the content of the first choice, the
  three token counts of the response's usage (as \<^verbatim>\<open>str\<close>), the response's model and the
  query's embedding. Every document it adds to the cache collection has these fields
  (the driver adds the \<^verbatim>\<open>_id\<close>), and it adds at most one.
\<close>

theorem cache_generation_document:
  "(choices response = c # cs \<and> usage response = Some u \<and>
      db_fault sv (length (trace w)) = None \<longrightarrow>
      (\<exists>doc. cache_generation sv user_prompt user_embeddings response w =
          (Inr (), w\<lparr>cache := cache w @ [\<lparr>oid = fresh_oid (cache w), body = doc\<rparr>],
                     trace := trace w @ [CacheInsert doc]\<rparr>) \<and>
         doc = [(''prompt'', PyStr user_prompt),
                (''completion'', opt_str (content (message c))),
                (''completionTokens'', PyStr (py_str (completion_tokens u))),
                (''promptTokens'', PyStr (py_str (prompt_tokens u))),
                (''totalTokens'', PyStr (py_str (total_tokens u))),
                (''model'', PyStr (model response)),
                (''vectorContent'', PyList (map PyFloat user_embeddings))])) \<and>
   (\<exists>news. cache (snd (cache_generation sv user_prompt user_embeddings response w)) =
        cache w @ news \<and> length news \<le> 1 \<and>
      (\<forall>d. d \<in> set news \<longrightarrow>
         map fst (body d) = [''prompt'', ''completion'', ''completionTokens'', ''promptTokens'',
           ''totalTokens'', ''model'', ''vectorContent''] \<and>
         map_of (body d) ''prompt'' = Some (PyStr user_prompt) \<and>
         map_of (body d) ''vectorContent'' = Some (PyList (map PyFloat user_embeddings))))"
proof (intro conjI impI)
  assume a: "choices response = c # cs \<and> usage response = Some u \<and>
      db_fault sv (length (trace w)) = None"
  then show "\<exists>doc. cache_generation sv user_prompt user_embeddings response w =
          (Inr (), w\<lparr>cache := cache w @ [\<lparr>oid = fresh_oid (cache w), body = doc\<rparr>],
                     trace := trace w @ [CacheInsert doc]\<rparr>) \<and>
         doc = [(''prompt'', PyStr user_prompt),
                (''completion'', opt_str (content (message c))),
                (''completionTokens'', PyStr (py_str (completion_tokens u))),
                (''promptTokens'', PyStr (py_str (prompt_tokens u))),
                (''totalTokens'', PyStr (py_str (total_tokens u))),
                (''model'', PyStr (model response)),
                (''vectorContent'', PyList (map PyFloat user_embeddings))]"
    by (simp add: cache_generation_eq cache_document_def emit_def)
next
  show "\<exists>news. cache (snd (cache_generation sv user_prompt user_embeddings response w)) =
        cache w @ news \<and> length news \<le> 1 \<and>
      (\<forall>d. d \<in> set news \<longrightarrow>
         map fst (body d) = [''prompt'', ''completion'', ''completionTokens'', ''promptTokens'',
           ''totalTokens'', ''model'', ''vectorContent''] \<and>
         map_of (body d) ''prompt'' = Some (PyStr user_prompt) \<and>
         map_of (body d) ''vectorContent'' = Some (PyList (map PyFloat user_embeddings)))"
  proof (cases "\<exists>ch chs us. choices response = ch # chs \<and> usage response = Some us \<and>
      db_fault sv (length (trace w)) = None")
    case True
    then obtain ch chs us where "choices response = ch # chs" "usage response = Some us"
      "db_fault sv (length (trace w)) = None"
      by blast
    then show ?thesis
      by (intro exI [of _ "[\<lparr>oid = fresh_oid (cache w),
            body = cache_document user_prompt user_embeddings ch us (model response)\<rparr>]"])
        (simp add: cache_generation_eq cache_document_def)
  next
    case False
    then have "cache (snd (cache_generation sv user_prompt user_embeddings response w)) = cache w"
      by (auto simp: cache_generation_eq split: list.splits option.splits)
    then show ?thesis
      by (intro exI [of _ "[]"]) simp
  qed
qed

theorem cache_generation_document_witness:
  "cache (snd (cache_generation demo_services ''q5'' [1, 2] demo_chat_completion demo_world)) =
     demo_cache @
     [\<lparr>oid = 5,
       body = [(''prompt'', PyStr ''q5''),
               (''completion'', PyStr ''Use Azure ML.''),
               (''completionTokens'', PyStr ''4''),
               (''promptTokens'', PyStr ''120''),
               (''totalTokens'', PyStr ''124''),
               (''model'', PyStr ''gpt-35-turbo''),
               (''vectorContent'', PyList [PyFloat 1, PyFloat 2])]\<rparr>]"
proof -
  have h: "choices demo_chat_completion = \<lparr>message = \<lparr>content = Some ''Use Azure ML.''\<rparr>\<rparr> # [] \<and>
      usage demo_chat_completion =
        Some \<lparr>completion_tokens = 4, prompt_tokens = 120, total_tokens = 124\<rparr> \<and>
      db_fault demo_services (length (trace demo_world)) = None"
    by (simp add: demo_defs)
  from cache_generation_document [of demo_chat_completion
      "\<lparr>message = \<lparr>content = Some ''Use Azure ML.''\<rparr>\<rparr>" "[]"
      "\<lparr>completion_tokens = 4, prompt_tokens = 120, total_tokens = 124\<rparr>"
      demo_services demo_world "''q5''" "[1, 2]"] h
  show ?thesis
    by (simp add: demo_defs opt_str_def py_str_def str_nat.simps fresh_oid_def)
qed



text \<open>
  C3. The interactive loop only ever appends to the cache collection: the documents that
  were there stay as they are, in place, and each new document is the argument of one
  \<^verbatim>\<open>insert_one\<close> call of \<open>cache_generation\<close>, which makes at most one such call and exactly
  one when it returns. A session that ends normally has added one document per query.
  No call of the loop is of another kind than embedding, search, history read,
  completion, print and cache insert.
\<close>

theorem qa_loop_cache_insert_only:
  "(\<exists>added news.
      trace (snd (qa_loop sv inputs w)) = trace w @ added \<and>
      cache (snd (qa_loop sv inputs w)) = cache w @ news \<and>
      prefix (map body news) (cache_writes added) \<and>
      set (map step_of added) \<subseteq> {Embed, Search, ReadHistory, Complete, Show, WriteCache} \<and>
      (fst (qa_loop sv inputs w) = Inr () \<longrightarrow>
         map body news = cache_writes added \<and>
         length news = length (takeWhile (\<lambda>u. lower u \<noteq> ''end'') inputs))) \<and>
   (\<exists>ds news.
      trace (snd (cache_generation sv user_prompt user_embeddings response w)) =
        trace w @ map CacheInsert ds \<and>
      cache (snd (cache_generation sv user_prompt user_embeddings response w)) = cache w @ news \<and>
      length ds \<le> 1 \<and> prefix (map body news) ds \<and>
      (fst (cache_generation sv user_prompt user_embeddings response w) = Inr () \<longrightarrow>
         length ds = 1 \<and> map body news = ds))"
proof
  let ?p = "takeWhile (\<lambda>u. lower u \<noteq> ''end'') inputs"
  from qa_loop_run [of sv inputs w] obtain added ps qs news where r:
    "trace (snd (qa_loop sv inputs w)) = trace w @ added"
    "cache (snd (qa_loop sv inputs w)) = cache w @ news"
    "prefix (map step_of added) (concat (map (\<lambda>u. iteration_steps) ?p))"
    "map (\<lambda>d. map_of d ''prompt'') (cache_writes added) = map (\<lambda>u. Some (PyStr u)) qs"
    "prefix (map body news) (cache_writes added)"
    "fst (qa_loop sv inputs w) = Inr () \<longrightarrow> qs = ?p \<and> map body news = cache_writes added"
    by blast
  have "set (map step_of added) \<subseteq> set (concat (map (\<lambda>u. iteration_steps) ?p))"
    using r(3) by (rule set_mono_prefix)
  also have "\<dots> \<subseteq> {Embed, Search, ReadHistory, Complete, Show, WriteCache}"
    by (auto simp: iteration_steps_def)
  finally have kinds:
    "set (map step_of added) \<subseteq> {Embed, Search, ReadHistory, Complete, Show, WriteCache}" .
  have len: "length news = length ?p" if ok: "fst (qa_loop sv inputs w) = Inr ()"
  proof -
    from ok r(6) have "qs = ?p" and e: "map body news = cache_writes added"
      by simp_all
    from arg_cong [OF e, of length] have "length news = length (cache_writes added)"
      by simp
    also from arg_cong [OF r(4), of length] have "\<dots> = length qs"
      by simp
    finally show ?thesis
      using \<open>qs = ?p\<close> by simp
  qed
  show "\<exists>added news.
      trace (snd (qa_loop sv inputs w)) = trace w @ added \<and>
      cache (snd (qa_loop sv inputs w)) = cache w @ news \<and>
      prefix (map body news) (cache_writes added) \<and>
      set (map step_of added) \<subseteq> {Embed, Search, ReadHistory, Complete, Show, WriteCache} \<and>
      (fst (qa_loop sv inputs w) = Inr () \<longrightarrow>
         map body news = cache_writes added \<and> length news = length ?p)"
    using r(1,2,5,6) kinds len by blast
next
  obtain r w1 where run: "cache_generation sv user_prompt user_embeddings response w = (r, w1)"
    by (cases "cache_generation sv user_prompt user_embeddings response w")
  from cache_generation_run [OF run]
  consider err where "r = Inl err" "w1 = w"
    | doc err where "r = Inl err" "w1 = emit (CacheInsert doc) w"
    | doc where "r = Inr ()"
        "w1 = (emit (CacheInsert doc) w)
           \<lparr>cache := cache w @ [\<lparr>oid = fresh_oid (cache w), body = doc\<rparr>]\<rparr>"
    by blast
  then have "\<exists>ds news.
      trace w1 = trace w @ map CacheInsert ds \<and> cache w1 = cache w @ news \<and>
      length ds \<le> 1 \<and> prefix (map body news) ds \<and>
      (r = Inr () \<longrightarrow> length ds = 1 \<and> map body news = ds)"
  proof cases
    case 1
    show ?thesis
      by (rule exI [of _ "[]"], rule exI [of _ "[]"], insert 1, simp)
  next
    case 2
    show ?thesis
      by (rule exI [of _ "[doc]"], rule exI [of _ "[]"], insert 2, simp)
  next
    case 3
    show ?thesis
      by (rule exI [of _ "[doc]"],
          rule exI [of _ "[\<lparr>oid = fresh_oid (cache w), body = doc\<rparr>]"], insert 3, simp)
  qed
  then show "\<exists>ds news.
      trace (snd (cache_generation sv user_prompt user_embeddings response w)) =
        trace w @ map CacheInsert ds \<and>
      cache (snd (cache_generation sv user_prompt user_embeddings response w)) = cache w @ news \<and>
      length ds \<le> 1 \<and> prefix (map body news) ds \<and>
      (fst (cache_generation sv user_prompt user_embeddings response w) = Inr () \<longrightarrow>
         length ds = 1 \<and> map body news = ds)"
    unfolding run by simp
qed

theorem qa_loop_cache_insert_only_witness:
  "fst (qa_loop demo_services [''What is Azure ML?'', ''End'', ''ignored''] demo_world) = Inr () \<and>
   take 4 (cache (snd (qa_loop demo_services [''What is Azure ML?'', ''End'', ''ignored'']
      demo_world))) = demo_cache \<and>
   length (cache (snd (qa_loop demo_services [''What is Azure ML?'', ''End'', ''ignored'']
      demo_world))) = 5"
proof -
  have c: "cache demo_world = demo_cache" "length demo_cache = 4"
    by (simp_all add: demo_world_def demo_cache_def)
  have tw: "takeWhile (\<lambda>u. lower u \<noteq> ''end'') [''What is Azure ML?'', ''End'', ''ignored'']
      = [''What is Azure ML?'']"
    by (simp add: lower_def lower_char_def)
  from qa_loop_cache_insert_only [of demo_services
      "[''What is Azure ML?'', ''End'', ''ignored'']" demo_world]
  obtain news where
    "cache (snd (qa_loop demo_services [''What is Azure ML?'', ''End'', ''ignored''] demo_world))
       = cache demo_world @ news"
    "fst (qa_loop demo_services [''What is Azure ML?'', ''End'', ''ignored''] demo_world) = Inr ()
       \<longrightarrow> length news = length (takeWhile (\<lambda>u. lower u \<noteq> ''end'')
              [''What is Azure ML?'', ''End'', ''ignored''])"
    by blast
  with demo_qa_loop_ok show ?thesis
    unfolding tw c by (simp del: qa_loop.simps add: c)
qed

text \<open>
  C9. The loop stops at the first input whose lower-cased text is \<^verbatim>\<open>end\<close> (so at \<^verbatim>\<open>END\<close> and
  \<^verbatim>\<open>End\<close> too) and leaves the world untouched for it; for any other input it runs its
  body. The inputs embedded and the prompts written to the cache are inputs that come
  before the terminator, in order, all of them when the session ends normally, and then
  the inputs do contain a terminator.
\<close>

theorem qa_loop_terminator:
  "lower ''end'' = ''end'' \<and> lower ''END'' = ''end'' \<and> lower ''End'' = ''end'' \<and>
   (lower t = ''end'' \<longrightarrow> qa_loop sv (t # rest) w = (Inr (), w)) \<and>
   (lower u \<noteq> ''end'' \<longrightarrow>
      qa_loop sv (u # rest) w =
        (case qa_body sv u w of
           (Inl e, w1) \<Rightarrow> (Inl e, w1)
         | (Inr x, w1) \<Rightarrow> qa_loop sv rest w1)) \<and>
   (\<exists>added ps qs.
      trace (snd (qa_loop sv inputs w)) = trace w @ added \<and>
      prefix ps (takeWhile (\<lambda>u. lower u \<noteq> ''end'') inputs) \<and>
      embedded added = map Text ps \<and>
      prefix qs (takeWhile (\<lambda>u. lower u \<noteq> ''end'') inputs) \<and>
      map (\<lambda>d. map_of d ''prompt'') (cache_writes added) = map (\<lambda>u. Some (PyStr u)) qs \<and>
      prefix (map step_of added)
        (concat (map (\<lambda>u. [Embed, Search, ReadHistory, Complete, Show, Show, WriteCache])
           (takeWhile (\<lambda>u. lower u \<noteq> ''end'') inputs))) \<and>
      (fst (qa_loop sv inputs w) = Inr () \<longrightarrow>
         ps = takeWhile (\<lambda>u. lower u \<noteq> ''end'') inputs \<and>
         qs = takeWhile (\<lambda>u. lower u \<noteq> ''end'') inputs \<and>
         (\<exists>t \<in> set inputs. lower t = ''end'')))"
proof (intro conjI impI)
  show "lower ''end'' = ''end''" "lower ''END'' = ''end''" "lower ''End'' = ''end''"
    by (simp_all add: lower_def lower_char_def)
next
  assume "lower t = ''end''"
  then show "qa_loop sv (t # rest) w = (Inr (), w)"
    by simp
next
  assume "lower u \<noteq> ''end''"
  then show "qa_loop sv (u # rest) w =
        (case qa_body sv u w of
           (Inl e, w1) \<Rightarrow> (Inl e, w1)
         | (Inr x, w1) \<Rightarrow> qa_loop sv rest w1)"
    by simp
next
  let ?p = "takeWhile (\<lambda>u. lower u \<noteq> ''end'') inputs"
  from qa_loop_run [of sv inputs w] obtain added ps qs where r:
    "trace (snd (qa_loop sv inputs w)) = trace w @ added"
    "prefix (map step_of added) (concat (map (\<lambda>u. iteration_steps) ?p))"
    "prefix ps ?p" "embedded added = map Text ps" "prefix qs ?p"
    "map (\<lambda>d. map_of d ''prompt'') (cache_writes added) = map (\<lambda>u. Some (PyStr u)) qs"
    "fst (qa_loop sv inputs w) = Inr () \<longrightarrow> ps = ?p \<and> qs = ?p \<and> ?p \<noteq> inputs"
    by blast
  have "\<exists>t \<in> set inputs. lower t = ''end''" if "?p \<noteq> inputs"
    using that by (simp add: takeWhile_eq_all_conv)
  with r show "\<exists>added ps qs.
      trace (snd (qa_loop sv inputs w)) = trace w @ added \<and>
      prefix ps ?p \<and> embedded added = map Text ps \<and> prefix qs ?p \<and>
      map (\<lambda>d. map_of d ''prompt'') (cache_writes added) = map (\<lambda>u. Some (PyStr u)) qs \<and>
      prefix (map step_of added)
        (concat (map (\<lambda>u. [Embed, Search, ReadHistory, Complete, Show, Show, WriteCache]) ?p)) \<and>
      (fst (qa_loop sv inputs w) = Inr () \<longrightarrow>
         ps = ?p \<and> qs = ?p \<and> (\<exists>t \<in> set inputs. lower t = ''end''))"
    unfolding iteration_steps_def by blast
qed

theorem qa_loop_terminator_witness:
  "qa_loop demo_services [''END'', ''What is Azure ML?''] demo_world = (Inr (), demo_world) \<and>
   fst (qa_loop demo_services [''What is Azure ML?'', ''End'', ''ignored''] demo_world) = Inr () \<and>
   embedded (trace (snd (qa_loop demo_services [''What is Azure ML?'', ''End'', ''ignored'']
      demo_world))) = [Text ''What is Azure ML?'']"
proof -
  have t: "trace demo_world = []"
    by (simp add: demo_world_def)
  have tw: "takeWhile (\<lambda>u. lower u \<noteq> ''end'') [''What is Azure ML?'', ''End'', ''ignored'']
      = [''What is Azure ML?'']"
    by (simp add: lower_def lower_char_def)
  have e: "lower ''END'' = ''end''"
    by (simp add: lower_def lower_char_def)
  note inst = qa_loop_terminator [of "''END''" demo_services "[''What is Azure ML?'']" demo_world
      "''What is Azure ML?''" "[''What is Azure ML?'', ''End'', ''ignored'']"]
  from inst e have first: "qa_loop demo_services [''END'', ''What is Azure ML?''] demo_world
      = (Inr (), demo_world)"
    by blast
  from inst obtain added ps where
    "trace (snd (qa_loop demo_services [''What is Azure ML?'', ''End'', ''ignored''] demo_world))
       = trace demo_world @ added"
    "embedded added = map Text ps"
    "fst (qa_loop demo_services [''What is Azure ML?'', ''End'', ''ignored''] demo_world) = Inr ()
       \<longrightarrow> ps = takeWhile (\<lambda>u. lower u \<noteq> ''end'')
              [''What is Azure ML?'', ''End'', ''ignored'']"
    by blast
  with demo_qa_loop_ok first show ?thesis
    unfolding tw t by (simp del: qa_loop.simps)
qed

section \<open>The NoSQL notebook: insert\_data\<close>

lemma upserts_append: "upserts (xs @ ys) = upserts xs @ upserts ys"
  by (induction xs rule: upserts.induct) simp_all


lemma upsert_item_run:
  assumes "upsert_item sv obj w = (r, w1)"
  shows "trace w1 = trace w @ [Upsert obj] \<and> cache w1 = cache w \<and> items w1 = items w \<and>
     ((\<exists>e. r = Inl e \<and> container w1 = container w) \<or>
      (\<exists>i. r = Inr () \<and> item_id obj = Inr i \<and> db_fault sv (length (trace w)) = None \<and>
           container w1 = (container w)(i \<mapsto> fields obj)))"
  using assms
  by (auto simp: upsert_item_def Let_def split: option.splits sum.splits)


lemma upto_length_Cons:
  "[c + 1..c + int (length (x # xs))] = (c + 1) # [c + 1 + 1..c + 1 + int (length xs)]"
proof -
  have e: "c + int (length (x # xs)) = c + 1 + int (length xs)"
    by simp
  have "c + 1 \<le> c + 1 + int (length xs)"
    by simp
  then have "[c + 1..c + 1 + int (length xs)] = (c + 1) # [c + 1 + 1..c + 1 + int (length xs)]"
    by (rule upto_rec1)
  with e show ?thesis
    by (simp only:)
qed

lemma insert_loop_trace:
  "\<exists>added. trace (snd (insert_loop sv ds c w)) = trace w @ added \<and>
     cache (snd (insert_loop sv ds c w)) = cache w \<and>
     items (snd (insert_loop sv ds c w)) = items w \<and>
     prefix (upserts added) ds \<and>
     (\<forall>n. fst (insert_loop sv ds c w) = Inr n \<longrightarrow>
        n = c + int (length ds) \<and>
        added = concat (map pass_events (zip [c + 1..c + int (length ds)] ds)))"
proof (induction ds arbitrary: c w)
  case Nil
  show ?case
    by (rule exI [of _ "[]"]) simp
next
  case (Cons obj rest)
  obtain r w1 where u: "upsert_item sv obj w = (r, w1)"
    by (cases "upsert_item sv obj w")
  note run = upsert_item_run [OF u]
  show ?case
  proof (cases r)
    case (Inl e)
    with u have res: "insert_loop sv (obj # rest) c w = (Inl e, w1)"
      by simp
    show ?thesis
      unfolding res
      by (rule exI [of _ "[Upsert obj]"], insert run, simp)
  next
    case (Inr x)
    define w2 where
      "w2 = (if (c + 1) mod 100 = 0 then emit (Print (progress_message (c + 1))) w1 else w1)"
    let ?ev = "pass_events (c + 1, obj)"
    from Inr u have res: "insert_loop sv (obj # rest) c w = insert_loop sv rest (c + 1) w2"
      by (simp add: Let_def w2_def)
    have t2: "trace w2 = trace w @ ?ev" "cache w2 = cache w" "items w2 = items w"
      using run by (simp_all add: pass_events_def w2_def)
    from Cons.IH [of "c + 1" w2] obtain added2 where ih:
      "trace (snd (insert_loop sv rest (c + 1) w2)) = trace w2 @ added2"
      "cache (snd (insert_loop sv rest (c + 1) w2)) = cache w2"
      "items (snd (insert_loop sv rest (c + 1) w2)) = items w2"
      "prefix (upserts added2) rest"
      "\<forall>n. fst (insert_loop sv rest (c + 1) w2) = Inr n \<longrightarrow>
         n = c + 1 + int (length rest) \<and>
         added2 = concat (map pass_events (zip [c + 1 + 1..c + 1 + int (length rest)] rest))"
      by blast
    have up: "upserts ?ev = [obj]"
      by (simp add: pass_events_def)
    have len: "c + int (length (obj # rest)) = c + 1 + int (length rest)"
      by simp
    have "trace (snd (insert_loop sv rest (c + 1) w2)) = trace w @ (?ev @ added2)"
      using ih(1) t2(1) by simp
    moreover have "prefix (upserts (?ev @ added2)) (obj # rest)"
      using ih(4) up by (simp add: upserts_append)
    moreover have "\<forall>n. fst (insert_loop sv rest (c + 1) w2) = Inr n \<longrightarrow>
        n = c + int (length (obj # rest)) \<and>
        ?ev @ added2 =
          concat (map pass_events (zip [c + 1..c + int (length (obj # rest))] (obj # rest)))"
    proof (intro allI impI)
      fix n
      assume "fst (insert_loop sv rest (c + 1) w2) = Inr n"
      with ih(5) have n: "n = c + 1 + int (length rest)"
        and a: "added2 = concat (map pass_events (zip [c + 1 + 1..c + 1 + int (length rest)] rest))"
        by blast+
      have F: "concat (map pass_events (zip [c + 1..c + int (length (obj # rest))] (obj # rest))) =
          ?ev @ concat (map pass_events (zip [c + 1 + 1..c + 1 + int (length rest)] rest))"
        by (simp only: upto_length_Cons zip_Cons_Cons list.map concat.simps)
      from n len have "n = c + int (length (obj # rest))"
        by (simp only:)
      moreover from a F have "?ev @ added2 =
          concat (map pass_events (zip [c + 1..c + int (length (obj # rest))] (obj # rest)))"
        by (simp only:)
      ultimately show "n = c + int (length (obj # rest)) \<and>
        ?ev @ added2 =
          concat (map pass_events (zip [c + 1..c + int (length (obj # rest))] (obj # rest)))"
        by (rule conjI)
    qed
    ultimately show ?thesis
      unfolding res using ih(2,3) t2(2,3) by metis
  qed
qed

lemma upserts_passes:
  "length ks = length ds \<Longrightarrow> upserts (concat (map pass_events (zip ks ds))) = ds"
  by (induction ks ds rule: list_induct2) (simp_all add: upserts_append pass_events_def)


lemma length_upto_from: "length [c + 1..c + int n] = n"
  by simp


lemma insert_loop_container_other:
  "\<forall>obj \<in> set ds. item_id obj \<noteq> Inr j \<Longrightarrow>
   container (snd (insert_loop sv ds c w)) j = container w j"
proof (induction ds arbitrary: c w)
  case Nil
  show ?case by simp
next
  case (Cons obj rest)
  obtain r w1 where u: "upsert_item sv obj w = (r, w1)"
    by (cases "upsert_item sv obj w")
  from upsert_item_run [OF u] Cons.prems have c1: "container w1 j = container w j"
    by auto
  show ?case
  proof (cases r)
    case (Inl e)
    with u c1 show ?thesis by simp
  next
    case (Inr x)
    define w2 where
      "w2 = (if (c + 1) mod 100 = 0 then emit (Print (progress_message (c + 1))) w1 else w1)"
    have "container w2 j = container w j"
      using c1 by (simp add: w2_def)
    moreover from Inr u have "insert_loop sv (obj # rest) c w = insert_loop sv rest (c + 1) w2"
      by (simp add: Let_def w2_def)
    moreover from Cons.prems Cons.IH [of "c + 1" w2]
    have "container (snd (insert_loop sv rest (c + 1) w2)) j = container w2 j"
      by simp
    ultimately show ?thesis by simp
  qed
qed




section \<open>The life of an item document\<close>

lemma dict_set_key: "k \<in> fst ` set (dict_set kvs k v)"
  by (induction kvs k v rule: dict_set.induct) auto

lemma generate_embeddings_vcore_run:
  "generate_embeddings_vcore sv t w = (r, w') \<Longrightarrow> w' = emit (EmbeddingsCreate t) w"
  by (auto simp: generate_embeddings_vcore_def Let_def split: sum.splits list.splits)

lemma items_insert_one_run:
  assumes "items_insert_one sv obj w = (r, w1)"
  shows "cache w1 = cache w \<and>
     ((\<exists>e. r = Inl e \<and> items w1 = items w) \<or>
      (\<exists>kvs. r = Inr () \<and> obj = PyDict kvs \<and>
         items w1 = items w @ [\<lparr>oid = fresh_oid (items w), body = kvs\<rparr>]))"
  using assms
  by (cases obj) (auto simp: items_insert_one_def Let_def split: option.splits)

lemma ingest_run:
  "\<exists>news. items (snd (ingest sv dumps objects w)) = items w @ news \<and>
     cache (snd (ingest sv dumps objects w)) = cache w \<and>
     length news \<le> length objects \<and>
     (\<forall>d \<in> set news. ''contentVector'' \<in> fst ` set (body d)) \<and>
     (fst (ingest sv dumps objects w) = Inr () \<longrightarrow> length news = length objects)"
proof (induction objects arbitrary: w)
  case Nil
  show ?case
    by (rule exI [of _ "[]"]) simp
next
  case (Cons obj rest)
  have stop: ?case if "ingest sv dumps (obj # rest) w = (Inl e, w1)"
    "items w1 = items w" "cache w1 = cache w" for e w1
    unfolding that(1) by (rule exI [of _ "[]"], insert that(2,3), simp)
  show ?case
  proof (cases "dumps obj")
    case (Inl e)
    then have "ingest sv dumps (obj # rest) w = (Inl e, w)"
      by simp
    then show ?thesis
      by (rule stop) simp_all
  next
    case s: (Inr sObject)
    obtain r1 w1 where g: "generate_embeddings_vcore sv (Text sObject) w = (r1, w1)"
      by (cases "generate_embeddings_vcore sv (Text sObject) w")
    from generate_embeddings_vcore_run [OF g]
    have w1: "items w1 = items w" "cache w1 = cache w"
      by simp_all
    show ?thesis
    proof (cases r1)
      case (Inl e)
      with s g have "ingest sv dumps (obj # rest) w = (Inl e, w1)"
        by simp
      then show ?thesis
        using w1 by (rule stop)
    next
      case v: (Inr vectorArray)
      show ?thesis
      proof (cases "setitem obj ''contentVector'' (PyList (map PyFloat vectorArray))")
        case (Inl e)
        with s g v have "ingest sv dumps (obj # rest) w = (Inl e, w1)"
          by simp
        then show ?thesis
          using w1 by (rule stop)
      next
        case o: (Inr obj')
        obtain r2 w2 where i: "items_insert_one sv obj' w1 = (r2, w2)"
          by (cases "items_insert_one sv obj' w1")
        note run = items_insert_one_run [OF i]
        show ?thesis
        proof (cases r2)
          case (Inl e)
          with s g v o i have "ingest sv dumps (obj # rest) w = (Inl e, w2)"
            by simp
          moreover from Inl run w1 have "items w2 = items w" "cache w2 = cache w"
            by auto
          ultimately show ?thesis
            by (rule stop)
        next
          case (Inr x)
          with s g v o i have res: "ingest sv dumps (obj # rest) w = ingest sv dumps rest w2"
            by simp
          from Inr run w1 obtain kvs where k: "obj' = PyDict kvs"
            "items w2 = items w @ [\<lparr>oid = fresh_oid (items w), body = kvs\<rparr>]"
            "cache w2 = cache w"
            by auto
          from o k(1) have key: "''contentVector'' \<in> fst ` set kvs"
            by (cases obj) (auto simp: dict_set_key)
          from Cons.IH [of w2] obtain news2 where ih:
            "items (snd (ingest sv dumps rest w2)) = items w2 @ news2"
            "cache (snd (ingest sv dumps rest w2)) = cache w2"
            "length news2 \<le> length rest"
            "\<forall>d \<in> set news2. ''contentVector'' \<in> fst ` set (body d)"
            "fst (ingest sv dumps rest w2) = Inr () \<longrightarrow> length news2 = length rest"
            by blast
          show ?thesis
            unfolding res
            by (rule exI [of _ "\<lparr>oid = fresh_oid (items w), body = kvs\<rparr> # news2"],
                insert ih k(2,3) key, simp)
        qed
      qed
    qed
  qed
qed

lemma qa_loop_items: "items (snd (qa_loop sv inputs w)) = items w"
  using qa_loop_run [of sv inputs w] by blast

lemma setup_database_items:
  "items (setup_database products_name cache_name w) = [] \<and>
   cache (setup_database products_name cache_name w) = []"
  by (simp add: setup_database_def create_collection_and_vector_index_def database_listed_def
      drop_database_def
      Let_def)

lemma insert_data_container_other:
  assumes "\<forall>object \<in> set dataset. item_id object \<noteq> Inr j"
  shows "container (snd (insert_data sv dataset w)) j = container w j"
proof -
  from insert_loop_container_other [OF assms, of sv 0 "emit ClientEnter w"]
  have "container (snd (insert_loop sv dataset 0 (emit ClientEnter w))) j = container w j"
    by simp
  then show ?thesis
    by (cases "insert_loop sv dataset 0 (emit ClientEnter w)")
      (auto simp: insert_data_def Let_def split: sum.splits)
qed

lemma insert_data_upserts:
  "\<exists>added. trace (snd (insert_data sv dataset w)) = trace w @ ClientEnter # added \<and>
     prefix (upserts added) dataset \<and>
     (fst (insert_data sv dataset w) = Inr () \<longrightarrow> upserts added = dataset)"
proof -
  let ?w0 = "emit ClientEnter w"
  obtain r w1 where l: "insert_loop sv dataset 0 ?w0 = (r, w1)"
    by (cases "insert_loop sv dataset 0 ?w0")
  from insert_loop_trace [of sv dataset 0 ?w0] l obtain added0 where a:
    "trace w1 = trace ?w0 @ added0" "prefix (upserts added0) dataset"
    "\<forall>n. r = Inr n \<longrightarrow>
       added0 = concat (map pass_events (zip [0 + 1..0 + int (length dataset)] dataset))"
    by auto
  show ?thesis
  proof (cases r)
    case (Inl e)
    with l have res: "insert_data sv dataset w = (Inl e, w1)"
      by (simp add: insert_data_def Let_def)
    show ?thesis
      unfolding res by (rule exI [of _ added0], insert a(1,2), simp)
  next
    case (Inr n)
    with l have res: "insert_data sv dataset w = (Inr (), emit (Print ''Upsert completed!'') w1)"
      by (simp add: insert_data_def Let_def)
    from Inr a(3)
    have "added0 = concat (map pass_events (zip [0 + 1..0 + int (length dataset)] dataset))"
      by simp
    then have "upserts added0 = dataset"
      using upserts_passes [OF length_upto_from [of 0 "length dataset"]]
      by (simp only:)
    then show ?thesis
      unfolding res
      by (rule_tac x = "added0 @ [Print ''Upsert completed!'']" in exI)
        (insert a(1), simp add: upserts_append)
  qed
qed

text \<open>
  C6, amended. Ingestion in the vCore notebook appends one new document per object, with
  its \<^verbatim>\<open>contentVector\<close>, and leaves the stored documents as they are; the interactive loop
  never changes the items collection; stored documents go away only when the setup cell
  drops the database. In the NoSQL notebook \<open>insert_data\<close> upserts each element of the
  data once, in order; an upsert replaces the document stored under the same id and
  leaves the documents stored under every other id unchanged.
\<close>

theorem item_documents_lifecycle:
  "(\<exists>news. items (snd (ingest sv dumps objects w)) = items w @ news \<and>
      length news \<le> length objects \<and>
      (\<forall>d \<in> set news. ''contentVector'' \<in> fst ` set (body d)) \<and>
      (fst (ingest sv dumps objects w) = Inr () \<longrightarrow> length news = length objects)) \<and>
   items (snd (qa_loop sv inputs w)) = items w \<and>
   items (setup_database products_name cache_name w) = [] \<and>
   (\<exists>added. trace (snd (insert_data sv dataset w)) = trace w @ ClientEnter # added \<and>
      prefix (upserts added) dataset \<and>
      (fst (insert_data sv dataset w) = Inr () \<longrightarrow> upserts added = dataset)) \<and>
   (item_id object = Inr i \<and> db_fault sv (length (trace w)) = None \<longrightarrow>
      container (snd (upsert_item sv object w)) = (container w)(i \<mapsto> fields object)) \<and>
   ((\<forall>object \<in> set dataset. item_id object \<noteq> Inr j) \<longrightarrow>
      container (snd (insert_data sv dataset w)) j = container w j)"
proof (intro conjI impI)
  from ingest_run [of sv dumps objects w]
  show "\<exists>news. items (snd (ingest sv dumps objects w)) = items w @ news \<and>
      length news \<le> length objects \<and>
      (\<forall>d \<in> set news. ''contentVector'' \<in> fst ` set (body d)) \<and>
      (fst (ingest sv dumps objects w) = Inr () \<longrightarrow> length news = length objects)"
    by blast
next
  show "items (snd (qa_loop sv inputs w)) = items w"
    by (rule qa_loop_items)
next
  show "items (setup_database products_name cache_name w) = []"
    using setup_database_items by blast
next
  show "\<exists>added. trace (snd (insert_data sv dataset w)) = trace w @ ClientEnter # added \<and>
      prefix (upserts added) dataset \<and>
      (fst (insert_data sv dataset w) = Inr () \<longrightarrow> upserts added = dataset)"
    by (rule insert_data_upserts)
next
  assume "item_id object = Inr i \<and> db_fault sv (length (trace w)) = None"
  then show "container (snd (upsert_item sv object w)) = (container w)(i \<mapsto> fields object)"
    by (simp add: upsert_item_def Let_def)
next
  assume "\<forall>object \<in> set dataset. item_id object \<noteq> Inr j"
  then show "container (snd (insert_data sv dataset w)) j = container w j"
    by (rule insert_data_container_other)
qed

theorem item_documents_lifecycle_witness:
  "container (snd (upsert_item demo_services (PyDict movie_v2) stocked_world)) ''1'' = Some movie_v2 \<and>
   container (snd (insert_data demo_services [PyDict movie_v2] stocked_world)) ''2'' =
     container stocked_world ''2'' \<and>
   fst (ingest demo_services demo_dumps [PyDict movie_v1, PyDict movie_v2] empty_world) = Inr () \<and>
   length (items (snd (ingest demo_services demo_dumps [PyDict movie_v1, PyDict movie_v2]
     empty_world))) = 2"
proof -
  have h1: "item_id (PyDict movie_v2) = Inr ''1'' \<and>
      db_fault demo_services (length (trace stocked_world)) = None"
    by (simp add: movie_v2_def demo_services_def)
  have h2: "\<forall>object \<in> set [PyDict movie_v2]. item_id object \<noteq> Inr ''2''"
    by (simp add: movie_v2_def)
  have ok: "fst (ingest demo_services demo_dumps [PyDict movie_v1, PyDict movie_v2] empty_world)
      = Inr ()"
    by (simp add: generate_embeddings_vcore_def items_insert_one_def demo_dumps_def
        demo_services_def demo_embedding_response_def empty_world_def Let_def)
  have e: "items empty_world = []"
    by (simp add: empty_world_def)
  note inst = item_documents_lifecycle [of demo_services demo_dumps
      "[PyDict movie_v1, PyDict movie_v2]" empty_world]
  note inst2 = item_documents_lifecycle [where w = stocked_world and sv = demo_services
      and dataset = "[PyDict movie_v2]" and object = "PyDict movie_v2" and i = "''1''"
      and j = "''2''"]
  from inst ok obtain news where
    "items (snd (ingest demo_services demo_dumps [PyDict movie_v1, PyDict movie_v2] empty_world))
       = items empty_world @ news"
    "length news = length [PyDict movie_v1, PyDict movie_v2]"
    by blast
  then have "length (items (snd (ingest demo_services demo_dumps
      [PyDict movie_v1, PyDict movie_v2] empty_world))) = 2"
    unfolding e by (simp del: ingest.simps)
  moreover from inst2 h1
  have "container (snd (upsert_item demo_services (PyDict movie_v2) stocked_world)) ''1''
      = Some movie_v2"
    by simp
  moreover from inst2 h2
  have "container (snd (insert_data demo_services [PyDict movie_v2] stocked_world)) ''2'' =
     container stocked_world ''2''"
    by blast
  ultimately show ?thesis
    using ok by blast
qed

text \<open>
  C6 as stated fails: a document stored in the NoSQL container is overwritten when
  \<open>insert_data\<close> upserts an element with the same id.
\<close>

theorem item_documents_overwritten:
  "container stocked_world ''1'' = Some movie_v1 \<and>
   container (snd (insert_data demo_services [PyDict movie_v2] stocked_world)) ''1'' = Some movie_v2 \<and>
   movie_v1 \<noteq> movie_v2"
  by (simp add: stocked_world_def movie_v1_def movie_v2_def insert_data_def upsert_item_def
      demo_services_def Let_def)

section \<open>Retries and exceptions\<close>





















end
